theory Spec2Isabelle
  imports Complex_Main
begin

section \<open>Data model of \<open>Tribler/API/RateManager.py\<close>\<close>

text \<open>
  Rates are Python floats (KByte/s) in the source; they are idealised here as real numbers,
  so every statement below is about exact arithmetic. The two directions and the seven
  download statuses come from \<open>Tribler.API.simpledefs\<close>.
\<close>

datatype direction = UPLOAD | DOWNLOAD

datatype dlstatus =
    DLSTATUS_ALLOCATING_DISKSPACE
  | DLSTATUS_WAITING4HASHCHECK
  | DLSTATUS_HASHCHECKING
  | DLSTATUS_DOWNLOADING
  | DLSTATUS_SEEDING
  | DLSTATUS_STOPPED
  | DLSTATUS_STOPPED_ON_ERROR

type_synonym rate = real

text \<open>
  \<open>ds\<close>: the DownloadState snapshot handed to \<open>add_downloadstate\<close>. It is only read:
  \<open>ds.get_status()\<close>, \<open>ds.get_current_speed(dir)\<close>, \<open>ds.has_active_connections()\<close>.
\<close>

record downloadstate =
  get_status :: dlstatus
  get_current_speed :: "direction \<Rightarrow> rate"
  has_active_connections :: bool

text \<open>
  \<open>d\<close>: the Download object. The rate manager reads and writes two rates per direction:
  the enforced rate (\<open>get_max_speed\<close> / \<open>set_max_speed\<close>) and the desired rate
  (\<open>get_max_desired_speed\<close> / \<open>set_max_desired_speed\<close>). Download objects are shared
  and mutated in place, so they live in a heap indexed by object identity.
\<close>

record download =
  max_speed :: "direction \<Rightarrow> rate"
  max_desired_speed :: "direction \<Rightarrow> rate"

type_synonym dlid = nat
type_synonym heap = "dlid \<Rightarrow> download"
type_synonym torrent = "dlid \<times> downloadstate"

text \<open>
  Modelled from the spec: the class Download is not part of the source file; section 6 of
  the specification gives its contract, a readable and writable enforced rate and desired
  rate per direction.
\<close>

definition get_max_speed :: "heap \<Rightarrow> dlid \<Rightarrow> direction \<Rightarrow> rate" where
  "get_max_speed h d dir = max_speed (h d) dir"

definition get_max_desired_speed :: "heap \<Rightarrow> dlid \<Rightarrow> direction \<Rightarrow> rate" where
  "get_max_desired_speed h d dir = max_desired_speed (h d) dir"

definition set_max_speed :: "dlid \<Rightarrow> direction \<Rightarrow> rate \<Rightarrow> heap \<Rightarrow> heap" where
  "set_max_speed d dir v h = h(d := (h d)\<lparr>max_speed := (max_speed (h d))(dir := v)\<rparr>)"

definition set_max_desired_speed :: "dlid \<Rightarrow> direction \<Rightarrow> rate \<Rightarrow> heap \<Rightarrow> heap" where
  "set_max_desired_speed d dir v h =
     h(d := (h d)\<lparr>max_desired_speed := (max_desired_speed (h d))(dir := v)\<rparr>)"

text \<open>
  The fields of class RateManager that the methods use. \<open>lock\<close> is the hold count of the
  RLock; \<open>statusmap\<close> has all seven keys from the constructor on, so it is a total
  function; \<open>dset\<close> is the set of Download objects seen in this cycle.
\<close>

record ratemanager =
  max_upload_rate :: rate
  max_seed_upload_rate :: rate
  max_download_rate :: rate
  lock :: nat
  statusmap :: "dlstatus \<Rightarrow> torrent list"
  currenttotal :: "direction \<Rightarrow> rate"
  dset :: "dlid set"
  calcupth1 :: rate
  calcupth2 :: rate
  meancalcupth :: rate
  rateminimum :: "direction \<Rightarrow> rate"

section \<open>The registry: \<open>clear_downloadstates\<close>, \<open>add_downloadstate\<close>\<close>

definition clear_downloadstates :: "ratemanager \<Rightarrow> ratemanager" where
  "clear_downloadstates rm =
     rm\<lparr>statusmap :=
          (statusmap rm)
            (DLSTATUS_ALLOCATING_DISKSPACE := [],
             DLSTATUS_WAITING4HASHCHECK := [],
             DLSTATUS_HASHCHECKING := [],
             DLSTATUS_DOWNLOADING := [],
             DLSTATUS_SEEDING := [],
             DLSTATUS_STOPPED := [],
             DLSTATUS_STOPPED_ON_ERROR := []),
        currenttotal := fold (\<lambda>dir ct. ct(dir := 0)) [UPLOAD, DOWNLOAD] (currenttotal rm),
        dset := {}\<rparr>"

text \<open>The constructor \<open>__init__(max_upload_rate, max_seed_upload_rate, max_download_rate)\<close>.\<close>

definition RateManager_init :: "rate \<Rightarrow> rate \<Rightarrow> rate \<Rightarrow> ratemanager" where
  "RateManager_init up seedup down =
     (clear_downloadstates
        \<lparr>max_upload_rate = up, max_seed_upload_rate = seedup, max_download_rate = down,
         lock = 0, statusmap = (\<lambda>_. []), currenttotal = (\<lambda>_. 0), dset = {},
         calcupth1 = 0, calcupth2 = 0, meancalcupth = 0, rateminimum = (\<lambda>_. 0)\<rparr>)
     \<lparr>calcupth1 := 2.3, calcupth2 := 0.7, meancalcupth := (2.3 + 0.7) / 2,
      rateminimum := (\<lambda>dir. case dir of UPLOAD \<Rightarrow> 3.0 | DOWNLOAD \<Rightarrow> 0.01)\<rparr>"

text \<open>
  \<open>add_downloadstate(d, ds)\<close>: the lock is taken and, in the \<open>finally\<close> clause, released;
  the value returned is \<open>len(self.dset)\<close>.
\<close>

definition add_downloadstate :: "dlid \<Rightarrow> downloadstate \<Rightarrow> ratemanager \<Rightarrow> nat \<times> ratemanager" where
  "add_downloadstate d ds rm =
     (let rm1 = rm\<lparr>lock := lock rm + 1\<rparr>;
          rm2 =
            (if d \<notin> dset rm1 then
               rm1\<lparr>statusmap :=
                     (statusmap rm1)(get_status ds := statusmap rm1 (get_status ds) @ [(d, ds)]),
                   currenttotal :=
                     fold (\<lambda>dir ct. ct(dir := ct dir + get_current_speed ds dir))
                       [UPLOAD, DOWNLOAD] (currenttotal rm1),
                   dset := insert d (dset rm1)\<rparr>
             else rm1)
      in (card (dset rm2), rm2\<lparr>lock := lock rm2 - 1\<rparr>))"

definition all_statuses :: "dlstatus list" where
  "all_statuses =
     [DLSTATUS_ALLOCATING_DISKSPACE, DLSTATUS_WAITING4HASHCHECK, DLSTATUS_HASHCHECKING,
      DLSTATUS_DOWNLOADING, DLSTATUS_SEEDING, DLSTATUS_STOPPED, DLSTATUS_STOPPED_ON_ERROR]"

text \<open>Every pair \<open>(d, ds)\<close> held in some bucket of the status map.\<close>

definition all_entries :: "ratemanager \<Rightarrow> torrent list" where
  "all_entries rm = concat (map (statusmap rm) all_statuses)"

definition total_of :: "direction \<Rightarrow> torrent list \<Rightarrow> rate" where
  "total_of dir ts = sum_list (map (\<lambda>t. get_current_speed (snd t) dir) ts)"

text \<open>
  The registry invariant: \<open>dset\<close> holds exactly the identities in the buckets, each once,
  and each running total is the sum of the speeds sampled in the stored snapshots.
\<close>

definition registry_inv :: "ratemanager \<Rightarrow> bool" where
  "registry_inv rm \<longleftrightarrow>
     dset rm = fst ` set (all_entries rm) \<and>
     distinct (map fst (all_entries rm)) \<and>
     currenttotal rm UPLOAD = total_of UPLOAD (all_entries rm) \<and>
     currenttotal rm DOWNLOAD = total_of DOWNLOAD (all_entries rm)"

section \<open>The cap: \<open>MaxRate\<close>, \<open>any_torrents_checking\<close>\<close>

definition MaxRate :: "ratemanager \<Rightarrow> direction \<Rightarrow> rate" where
  "MaxRate rm dir =
     (if dir = UPLOAD then
        (if length (statusmap rm DLSTATUS_DOWNLOADING) = 0 \<and>
            length (statusmap rm DLSTATUS_SEEDING) > 0
         then max_seed_upload_rate rm
         else max_upload_rate rm)
      else max_download_rate rm)"

definition any_torrents_checking :: "ratemanager \<Rightarrow> bool" where
  "any_torrents_checking rm =
     (if length (statusmap rm DLSTATUS_ALLOCATING_DISKSPACE) > 0 \<or>
         length (statusmap rm DLSTATUS_WAITING4HASHCHECK) > 0 \<or>
         length (statusmap rm DLSTATUS_HASHCHECKING) > 0
      then True else False)"

section \<open>The commit step: \<open>make_it_so\<close>\<close>

datatype error = AccessorError

text \<open>
  \<open>make_it_so(self, direct, torrentlist)\<close> writes with its parameter \<open>direct\<close> but reads
  with \<open>d.get_max_desired_speed(dir)\<close>. The name \<open>dir\<close> is not bound in this method, so
  Python resolves it in the module scope and then in the builtins, where \<open>dir\<close> is a
  builtin function; whatever it is, it is the same object for both values of \<open>direct\<close>.
  What the accessor of class Download does with that argument is outside the source file,
  so it is the parameter \<open>outer\<close>: the result of \<open>d.get_max_desired_speed(dir)\<close> on the
  object \<open>d\<close>, an exception or a rate. An exception leaves the loop at once; the objects
  written before it stay written.
\<close>

fun make_it_so ::
  "(download \<Rightarrow> error + rate) \<Rightarrow> direction \<Rightarrow> torrent list \<Rightarrow> heap \<Rightarrow> error \<times> heap + heap"
where
  "make_it_so outer direct [] h = Inr h"
| "make_it_so outer direct ((d, ds) # torrentlist) h =
     (case outer (h d) of
        Inl e \<Rightarrow> Inl (e, h)
      | Inr v \<Rightarrow> make_it_so outer direct torrentlist (set_max_speed d direct v h))"

section \<open>The allocator: \<open>CalculateBandwidth\<close>\<close>

definition workingset :: "ratemanager \<Rightarrow> direction \<Rightarrow> torrent list" where
  "workingset rm dir =
     filter (\<lambda>t. has_active_connections (snd t))
       (if dir = UPLOAD then statusmap rm DLSTATUS_DOWNLOADING @ statusmap rm DLSTATUS_SEEDING
        else statusmap rm DLSTATUS_DOWNLOADING)"

text \<open>The unlimited case: the loop of lines 150 to 153.\<close>

definition unlimited_step :: "direction \<Rightarrow> torrent \<Rightarrow> heap \<Rightarrow> heap" where
  "unlimited_step dir t h = set_max_speed (fst t) dir (get_max_desired_speed h (fst t) dir) h"

text \<open>The five lists and the accumulator \<open>meanrate\<close> that the dispatch loop fills.\<close>

record buckets =
  localprioactive :: "torrent list"
  tobelowered :: "torrent list"
  toberaised :: "torrent list"
  toberaisedinpriority :: "torrent list"
  nottobechanged :: "torrent list"
  meanrate :: rate

definition no_buckets :: buckets where
  "no_buckets =
     \<lparr>localprioactive = [], tobelowered = [], toberaised = [], toberaisedinpriority = [],
      nottobechanged = [], meanrate = 0\<rparr>"

text \<open>One pass of the dispatch loop (lines 217 to 253), the local \<open>prioritizelocal\<close> given.\<close>

definition dispatch ::
  "bool \<Rightarrow> ratemanager \<Rightarrow> direction \<Rightarrow> torrent \<Rightarrow> buckets \<times> heap \<Rightarrow> buckets \<times> heap"
where
  "dispatch prioritizelocal rm dir torrent bh =
     (let b = fst bh; h = snd bh; d = fst torrent; ds = snd torrent;
          currentrate = get_current_speed ds dir;
          currentlimit = get_max_speed h d dir;
          maxdesiredrate = get_max_desired_speed h d dir
      in if prioritizelocal \<and> maxdesiredrate \<noteq> 0 then
           (b\<lparr>localprioactive := localprioactive b @ [torrent]\<rparr>, h)
         else if currentrate < 0.05 then
           (b, set_max_desired_speed d dir 0 h)
         else if currentlimit - currentrate > calcupth1 rm then
           (b\<lparr>tobelowered := tobelowered b @ [torrent]\<rparr>, h)
         else if currentlimit - currentrate \<le> calcupth2 rm then
           (if currentrate < rateminimum rm dir then
              (b\<lparr>toberaisedinpriority := toberaisedinpriority b @ [torrent]\<rparr>, h)
            else
              (b\<lparr>toberaised := toberaised b @ [torrent],
                 meanrate := meanrate b + currentlimit\<rparr>, h))
         else if currentrate > rateminimum rm dir then
           (b\<lparr>nottobechanged := nottobechanged b @ [torrent],
              meanrate := meanrate b + currentlimit\<rparr>, h)
         else (b, h))"

definition classify ::
  "bool \<Rightarrow> ratemanager \<Rightarrow> direction \<Rightarrow> torrent list \<Rightarrow> heap \<Rightarrow> buckets \<times> heap"
where
  "classify prioritizelocal rm dir ws h = fold (dispatch prioritizelocal rm dir) ws (no_buckets, h)"

text \<open>The free wheeling loop (lines 272 to 290).\<close>

definition free_wheel_step :: "ratemanager \<Rightarrow> direction \<Rightarrow> torrent \<Rightarrow> heap \<Rightarrow> heap" where
  "free_wheel_step rm dir torrent h =
     (let d = fst torrent; ds = snd torrent;
          currentrate = get_current_speed ds dir;
          maxdesiredrate = get_max_desired_speed h d dir;
          newrate = currentrate + meancalcupth rm;
          maxlocalrate = maxdesiredrate;
          (rateToUse, newrate') =
            (if maxlocalrate > 0 then
               (maxlocalrate, if newrate > maxlocalrate then maxlocalrate else newrate)
             else (MaxRate rm dir, newrate))
      in set_max_speed d dir rateToUse (set_max_desired_speed d dir newrate' h))"

definition free_wheeling :: "ratemanager \<Rightarrow> direction \<Rightarrow> torrent list \<Rightarrow> heap \<Rightarrow> heap" where
  "free_wheeling rm dir ws h = fold (free_wheel_step rm dir) ws h"

text \<open>
  The three loops over the special buckets (lines 299 to 347). Each threads a running sum
  and the heap.
\<close>

definition raise_in_priority_step ::
  "ratemanager \<Rightarrow> direction \<Rightarrow> torrent \<Rightarrow> rate \<times> heap \<Rightarrow> rate \<times> heap"
where
  "raise_in_priority_step rm dir torrent gh =
     (let granted = fst gh; h = snd gh; d = fst torrent; ds = snd torrent;
          currentrate = get_current_speed ds dir;
          maxdesiredrate = get_max_desired_speed h d dir;
          newreservedrate = currentrate + meancalcupth rm
      in if newreservedrate > rateminimum rm dir then
           (granted + (rateminimum rm dir - maxdesiredrate),
            set_max_desired_speed d dir (rateminimum rm dir) h)
         else
           (granted + (newreservedrate - maxdesiredrate),
            set_max_desired_speed d dir newreservedrate h))"

definition grant_local_step ::
  "ratemanager \<Rightarrow> direction \<Rightarrow> torrent \<Rightarrow> rate \<times> heap \<Rightarrow> rate \<times> heap"
where
  "grant_local_step rm dir torrent gh =
     (let granted = fst gh; h = snd gh; d = fst torrent; ds = snd torrent;
          currentrate = get_current_speed ds dir;
          maxdesiredrate = get_max_desired_speed h d dir;
          newrate = currentrate + meancalcupth rm;
          maxlocalrate = maxdesiredrate;
          newrate' = (if newrate > maxlocalrate then maxlocalrate else newrate)
      in (granted + (newrate' - maxdesiredrate),
          set_max_speed d dir maxlocalrate (set_max_desired_speed d dir newrate' h)))"

definition give_back_step ::
  "ratemanager \<Rightarrow> direction \<Rightarrow> torrent \<Rightarrow> rate \<times> heap \<Rightarrow> rate \<times> heap"
where
  "give_back_step rm dir torrent gh =
     (let givenback = fst gh; h = snd gh; d = fst torrent; ds = snd torrent;
          currentrate = get_current_speed ds dir;
          maxdesiredrate = get_max_desired_speed h d dir;
          newreservedrate = currentrate + meancalcupth rm
      in (givenback + (newreservedrate - maxdesiredrate),
          set_max_desired_speed d dir newreservedrate h))"

text \<open>Phase 1 (lines 378 to 418): the claimed rate, then the raise scaled by \<open>realupfactor\<close>.\<close>

definition claim_step :: "ratemanager \<Rightarrow> direction \<Rightarrow> heap \<Rightarrow> torrent \<Rightarrow> rate \<Rightarrow> rate" where
  "claim_step rm dir h torrent claimedrate =
     (let d = fst torrent; ds = snd torrent;
          currentrate = get_current_speed ds dir;
          maxdesiredrate = get_max_desired_speed h d dir;
          maxup = maxdesiredrate;
          newreservedrate = currentrate + meancalcupth rm;
          toadd = newreservedrate;
          maxlocalup = maxdesiredrate;
          toadd' = (if maxlocalup > 0 \<and> newreservedrate > maxlocalup then maxlocalup else toadd)
      in claimedrate + (toadd' - maxup))"

definition phase1_step :: "ratemanager \<Rightarrow> direction \<Rightarrow> rate \<Rightarrow> torrent \<Rightarrow> heap \<Rightarrow> heap" where
  "phase1_step rm dir realupfactor torrent h =
     (let d = fst torrent; ds = snd torrent;
          currentrate = get_current_speed ds dir;
          maxdesiredrate = get_max_desired_speed h d dir;
          maxup = maxdesiredrate;
          newreservedrate = currentrate + meancalcupth rm;
          newmaxup = maxup + (newreservedrate - maxup) * realupfactor;
          maxlocalup = maxdesiredrate;
          newmaxup' =
            (if maxlocalup > 0 \<and> newreservedrate > maxlocalup
             then maxup + (maxlocalup - maxup) * realupfactor else newmaxup)
      in set_max_desired_speed d dir newmaxup' h)"

definition phase1 :: "ratemanager \<Rightarrow> direction \<Rightarrow> rate \<Rightarrow> torrent list \<Rightarrow> heap \<Rightarrow> heap" where
  "phase1 rm dir availableratetobedistributed raised h =
     (let claimedrate = fold (claim_step rm dir h) raised 0;
          realupfactor =
            (if claimedrate \<le> availableratetobedistributed then 1
             else availableratetobedistributed / claimedrate)
      in fold (phase1_step rm dir realupfactor) raised h)"

text \<open>
  Phase 2 a (lines 439 to 474). \<open>list.sort\<close> with a key is stable and ascending, as
  \<open>sort_key\<close> is; the key function cannot fail here, so the \<open>except\<close> branch is dead. The
  loop state is \<open>ratenotassignedforeach\<close>, the counter \<open>i\<close> and the heap. With an empty
  \<open>rate_id\<close> the source leaves \<open>ratenotassignedforeach\<close> unbound and runs no iteration.
\<close>

definition lower_pool_step ::
  "ratemanager \<Rightarrow> direction \<Rightarrow> nat \<Rightarrow> torrent \<Rightarrow> rate \<times> nat \<times> heap \<Rightarrow> rate \<times> nat \<times> heap"
where
  "lower_pool_step rm dir sizerate_id torrent st =
     (let ratenotassignedforeach = fst st; i0 = fst (snd st); h = snd (snd st);
          d = fst torrent;
          maxdesiredrate = get_max_desired_speed h d dir;
          newmaxrate = maxdesiredrate + ratenotassignedforeach;
          i = i0 + 1
      in if newmaxrate < rateminimum rm dir then
           ((if i \<noteq> sizerate_id
             then ratenotassignedforeach +
                  (newmaxrate - rateminimum rm dir) / (real sizerate_id - real i)
             else ratenotassignedforeach),
            i, set_max_desired_speed d dir (rateminimum rm dir) h)
         else (ratenotassignedforeach, i, set_max_desired_speed d dir newmaxrate h))"

definition rate_id_of :: "ratemanager \<Rightarrow> direction \<Rightarrow> torrent list \<Rightarrow> torrent list \<Rightarrow> heap \<Rightarrow> torrent list" where
  "rate_id_of rm dir raised unchanged h =
     (let pooltobelowered = raised @ unchanged;
          rate_id = filter (\<lambda>t. get_current_speed (snd t) dir > rateminimum rm dir) pooltobelowered
      in sort_key (\<lambda>t. get_max_speed h (fst t) dir) rate_id)"

definition phase2a ::
  "ratemanager \<Rightarrow> direction \<Rightarrow> rate \<Rightarrow> torrent list \<Rightarrow> torrent list \<Rightarrow> heap \<Rightarrow> heap"
where
  "phase2a rm dir availableratetobedistributed raised unchanged h =
     (let rate_id = rate_id_of rm dir raised unchanged h;
          sizerate_id = length rate_id
      in if rate_id \<noteq> [] then
           snd (snd (fold (lower_pool_step rm dir sizerate_id) rate_id
                       (availableratetobedistributed / real sizerate_id, 0, h)))
         else h)"

text \<open>
  Phase 2 b and c (lines 500 to 578): the mean, the two lists around it, and the exchange.
\<close>

definition mean_of :: "torrent list \<Rightarrow> torrent list \<Rightarrow> rate \<Rightarrow> rate" where
  "mean_of raised unchanged meanrate0 =
     (if raised \<noteq> [] \<or> unchanged \<noteq> []
      then meanrate0 / real (length raised + length unchanged) else meanrate0)"

definition raisedbelowm_of :: "direction \<Rightarrow> rate \<Rightarrow> torrent list \<Rightarrow> heap \<Rightarrow> torrent list" where
  "raisedbelowm_of dir meanrate1 raised h =
     filter (\<lambda>t. \<not> get_max_desired_speed h (fst t) dir > meanrate1 \<and>
                  get_max_desired_speed h (fst t) dir < meanrate1) raised"

definition allabovem_of :: "direction \<Rightarrow> rate \<Rightarrow> torrent list \<Rightarrow> torrent list \<Rightarrow> heap \<Rightarrow> torrent list" where
  "allabovem_of dir meanrate1 raised unchanged h =
     filter (\<lambda>t. get_max_desired_speed h (fst t) dir > meanrate1) raised @
     filter (\<lambda>t. get_max_desired_speed h (fst t) dir > meanrate1) unchanged"

definition up_step :: "direction \<Rightarrow> rate \<Rightarrow> heap \<Rightarrow> torrent \<Rightarrow> rate \<Rightarrow> rate" where
  "up_step dir meanrate1 h torrent up =
     (let d = fst torrent;
          maxdesiredrate = get_max_desired_speed h d dir;
          toadd = meanrate1 - maxdesiredrate;
          maxlocalrate_float = maxdesiredrate;
          toadd' =
            (if maxlocalrate_float > 0 \<and> maxlocalrate_float \<le> meanrate1
             then maxlocalrate_float - maxdesiredrate else toadd)
      in up + toadd')"

definition down_step :: "direction \<Rightarrow> rate \<Rightarrow> heap \<Rightarrow> torrent \<Rightarrow> rate \<Rightarrow> rate" where
  "down_step dir meanrate1 h torrent down =
     down + (get_max_desired_speed h (fst torrent) dir - meanrate1)"

text \<open>
  The speed-up loop: \<open>limitup\<close> is bound in the source only when \<open>up > down\<close>, and only
  then used.
\<close>

definition speed_up_step ::
  "ratemanager \<Rightarrow> direction \<Rightarrow> rate \<Rightarrow> rate \<Rightarrow> rate \<Rightarrow> torrent \<Rightarrow> rate \<times> heap \<Rightarrow> rate \<times> heap"
where
  "speed_up_step rm dir meanrate1 up down torrent rh =
     (let realup = fst rh; h = snd rh; d = fst torrent; ds = snd torrent;
          currentrate = get_current_speed ds dir;
          maxdesiredrate = get_max_desired_speed h d dir;
          maxup = maxdesiredrate;
          toadd = meanrate1 - maxup;
          maxlocalrate_float = maxdesiredrate;
          toadd' =
            (if maxlocalrate_float > 0 \<and> maxlocalrate_float \<le> meanrate1
             then maxlocalrate_float - maxup else toadd);
          toadd'' = (if up > down then toadd' * (down / up) else toadd');
          step = 2 * (currentrate + calcupth2 rm - maxup)
      in if toadd'' < step
         then (realup + toadd'', set_max_desired_speed d dir (maxup + toadd'') h)
         else (realup + step, set_max_desired_speed d dir (maxup + step) h))"

definition slow_down_step :: "direction \<Rightarrow> rate \<Rightarrow> torrent \<Rightarrow> heap \<Rightarrow> heap" where
  "slow_down_step dir realup torrent h =
     (let d = fst torrent; maxdesiredrate = get_max_desired_speed h d dir
      in set_max_desired_speed d dir (maxdesiredrate - realup) h)"

definition phase2c ::
  "ratemanager \<Rightarrow> direction \<Rightarrow> rate \<Rightarrow> torrent list \<Rightarrow> torrent list \<Rightarrow> heap \<Rightarrow> heap"
where
  "phase2c rm dir meanrate1 raisedbelowm allabovem h =
     (let up = fold (up_step dir meanrate1 h) raisedbelowm 0;
          down = fold (down_step dir meanrate1 h) allabovem 0;
          (realup, h') = fold (speed_up_step rm dir meanrate1 up down) raisedbelowm (0, h);
          realup' = realup / real (length allabovem)
      in fold (slow_down_step dir realup') allabovem h')"

definition phase2bc ::
  "ratemanager \<Rightarrow> direction \<Rightarrow> torrent list \<Rightarrow> torrent list \<Rightarrow> rate \<Rightarrow> heap \<Rightarrow> heap"
where
  "phase2bc rm dir raised unchanged meanrate0 h =
     (let meanrate1 = mean_of raised unchanged meanrate0;
          raisedbelowm = raisedbelowm_of dir meanrate1 raised h;
          allabovem = allabovem_of dir meanrate1 raised unchanged h
      in if raisedbelowm \<noteq> [] \<and> allabovem \<noteq> []
         then phase2c rm dir meanrate1 raisedbelowm allabovem h else h)"

text \<open>
  The pipeline after the free wheeling test (lines 299 to 585), from the buckets \<open>b\<close> and
  the heap the dispatch loop left.
\<close>

definition available_of :: "ratemanager \<Rightarrow> direction \<Rightarrow> rate \<Rightarrow> rate \<Rightarrow> rate \<Rightarrow> rate" where
  "available_of rm dir givenbackbytobelowered grantedfortoberaisedinpriority grantedforlocaltoberaised =
     MaxRate rm dir +
       (givenbackbytobelowered - grantedfortoberaisedinpriority - grantedforlocaltoberaised
          - currenttotal rm dir)"

definition redistribute ::
  "(download \<Rightarrow> error + rate) \<Rightarrow> ratemanager \<Rightarrow> direction \<Rightarrow> torrent list \<Rightarrow> buckets \<Rightarrow> heap \<Rightarrow>
     error \<times> heap + heap"
where
  "redistribute outer rm dir ws b h1 =
     (let (grantedfortoberaisedinpriority, h2) =
            fold (raise_in_priority_step rm dir) (toberaisedinpriority b) (0, h1);
          (grantedforlocaltoberaised, h3) =
            fold (grant_local_step rm dir) (localprioactive b) (0, h2);
          (givenbackbytobelowered, h4) =
            fold (give_back_step rm dir) (tobelowered b) (0, h3);
          availableratetobedistributed =
            available_of rm dir givenbackbytobelowered grantedfortoberaisedinpriority
              grantedforlocaltoberaised;
          toberegulated = filter (\<lambda>torrent. torrent \<notin> set (localprioactive b)) ws
      in if toberaised b = [] then make_it_so outer dir toberegulated h4
         else if availableratetobedistributed > 0 then
           make_it_so outer dir toberegulated
             (phase1 rm dir availableratetobedistributed (toberaised b) h4)
         else
           (let h5 =
                  (if availableratetobedistributed < 0
                   then phase2a rm dir availableratetobedistributed (toberaised b)
                          (nottobechanged b) h4
                   else h4);
                h6 = phase2bc rm dir (toberaised b) (nottobechanged b) (meanrate b) h5
            in make_it_so outer dir toberegulated h6))"

text \<open>
  \<open>CalculateBandwidth(dir)\<close> as a function of its local \<open>prioritizelocal\<close>, which line 183
  sets to \<open>False\<close>. The rate manager is only read; the Download objects are written.
\<close>

definition CalculateBandwidth_with ::
  "bool \<Rightarrow> (download \<Rightarrow> error + rate) \<Rightarrow> ratemanager \<Rightarrow> direction \<Rightarrow> heap \<Rightarrow> error \<times> heap + heap"
where
  "CalculateBandwidth_with prioritizelocal outer rm dir h =
     (let ws = workingset rm dir
      in if ws = [] then Inr h
         else
           (let maxrate = MaxRate rm dir
            in if maxrate = 0 then Inr (fold (unlimited_step dir) ws h)
               else
                 (let (b, h1) = classify prioritizelocal rm dir ws h;
                      availableratetobedistributed = maxrate
                  in if availableratetobedistributed \<noteq> 0 \<and>
                        1 - currenttotal rm dir / availableratetobedistributed > 0.20
                     then Inr (free_wheeling rm dir ws h1)
                     else redistribute outer rm dir ws b h1)))"

definition prioritizelocal :: bool where
  "prioritizelocal = False"

definition CalculateBandwidth ::
  "(download \<Rightarrow> error + rate) \<Rightarrow> ratemanager \<Rightarrow> direction \<Rightarrow> heap \<Rightarrow> error \<times> heap + heap"
where
  "CalculateBandwidth outer rm dir h = CalculateBandwidth_with prioritizelocal outer rm dir h"

section \<open>The cycle: \<open>adjust_speeds\<close>\<close>

text \<open>
  \<open>adjust_speeds\<close> takes the lock, runs the allocator for DOWNLOAD and then for UPLOAD,
  clears the registry and releases the lock. There is no \<open>try\<close> in it: an exception of
  either call leaves the method at that point, with the registry as it was and the lock
  still held.
\<close>

definition adjust_speeds ::
  "(download \<Rightarrow> error + rate) \<Rightarrow> ratemanager \<times> heap \<Rightarrow>
     error \<times> ratemanager \<times> heap + ratemanager \<times> heap"
where
  "adjust_speeds outer s =
     (let rm1 = (fst s)\<lparr>lock := lock (fst s) + 1\<rparr>
      in case CalculateBandwidth outer rm1 DOWNLOAD (snd s) of
           Inl (e, h) \<Rightarrow> Inl (e, rm1, h)
         | Inr h1 \<Rightarrow>
             (case CalculateBandwidth outer rm1 UPLOAD h1 of
                Inl (e, h) \<Rightarrow> Inl (e, rm1, h)
              | Inr h2 \<Rightarrow>
                  (let rm2 = clear_downloadstates rm1
                   in Inr (rm2\<lparr>lock := lock rm2 - 1\<rparr>, h2))))"

section \<open>Concrete states\<close>

text \<open>Builders for the snapshots and Download objects of the worked examples.\<close>

definition ds_of :: "dlstatus \<Rightarrow> rate \<Rightarrow> rate \<Rightarrow> bool \<Rightarrow> downloadstate" where
  "ds_of st up down active =
     \<lparr>get_status = st,
      get_current_speed = (\<lambda>dir. case dir of UPLOAD \<Rightarrow> up | DOWNLOAD \<Rightarrow> down),
      has_active_connections = active\<rparr>"

definition dl_of :: "rate \<Rightarrow> rate \<Rightarrow> rate \<Rightarrow> rate \<Rightarrow> download" where
  "dl_of limit_up limit_down desired_up desired_down =
     \<lparr>max_speed = (\<lambda>dir. case dir of UPLOAD \<Rightarrow> limit_up | DOWNLOAD \<Rightarrow> limit_down),
      max_desired_speed = (\<lambda>dir. case dir of UPLOAD \<Rightarrow> desired_up | DOWNLOAD \<Rightarrow> desired_down)\<rparr>"


text \<open>The heap a call leaves behind, whether it returned or raised.\<close>

definition heap_of :: "error \<times> heap + heap \<Rightarrow> heap" where
  "heap_of r = (case r of Inl (e, h) \<Rightarrow> h | Inr h \<Rightarrow> h)"

text \<open>An object whose desired rates differ between the directions: 5 up, 7 down.\<close>

definition h_apply :: heap where
  "h_apply = (\<lambda>_. dl_of 0 0 5 7)"

text \<open>
  Two downloading torrents of 4 KB/s each way under caps of 5 KB/s: a deficit in both
  directions.
\<close>

definition rm_deficit :: ratemanager where
  "rm_deficit =
     snd (add_downloadstate 2 (ds_of DLSTATUS_DOWNLOADING 4 4 True)
       (snd (add_downloadstate 1 (ds_of DLSTATUS_DOWNLOADING 4 4 True) (RateManager_init 5 5 5))))"

definition h_deficit :: heap where
  "h_deficit = (\<lambda>_. dl_of 4 4 4 3)"

text \<open>The two behaviours of the accessor used in the examples.\<close>

definition outer_raises :: "download \<Rightarrow> error + rate" where
  "outer_raises d = Inl AccessorError"

definition outer_download :: "download \<Rightarrow> error + rate" where
  "outer_download d = Inr (max_desired_speed d DOWNLOAD)"


text \<open>One downloading torrent and no download cap.\<close>

definition rm_unlimited :: ratemanager where
  "rm_unlimited =
     snd (add_downloadstate 1 (ds_of DLSTATUS_DOWNLOADING 2 10 True) (RateManager_init 100 50 0))"

definition h_unlimited :: heap where
  "h_unlimited = (\<lambda>_. dl_of 8 12 20 30)"

text \<open>
  A download cap of 100 KB/s, one torrent downloading at 40 KB/s and a stopped one that
  was measured at 10 KB/s: half of the capacity is idle.
\<close>

definition rm_free :: ratemanager where
  "rm_free =
     snd (add_downloadstate 2 (ds_of DLSTATUS_STOPPED 0 10 False)
       (snd (add_downloadstate 1 (ds_of DLSTATUS_DOWNLOADING 0 40 True)
          (RateManager_init 100 100 100))))"

text \<open>No local cap (desired rate 0), and a local cap of 30 KB/s down.\<close>

definition h_free :: heap where
  "h_free = (\<lambda>_. dl_of 0 0 0 0)"

definition h_capped :: heap where
  "h_capped = (\<lambda>_. dl_of 0 35 0 30)"

text \<open>
  Phase 2 a in the words of the specification: walk the sorted pool once with the cut per
  item; a transfer that would fall below the minimum is floored there and its shortfall
  is divided among the transfers not yet visited.
\<close>

fun deficit_walk :: "ratemanager \<Rightarrow> direction \<Rightarrow> rate \<Rightarrow> torrent list \<Rightarrow> heap \<Rightarrow> heap" where
  "deficit_walk rm dir perItem [] h = h"
| "deficit_walk rm dir perItem (t # rest) h =
     (let newDesired = get_max_desired_speed h (fst t) dir + perItem
      in if newDesired < rateminimum rm dir then
           deficit_walk rm dir
             (if rest = [] then perItem
              else perItem - (rateminimum rm dir - newDesired) / real (length rest))
             rest (set_max_desired_speed (fst t) dir (rateminimum rm dir) h)
         else deficit_walk rm dir perItem rest (set_max_desired_speed (fst t) dir newDesired h))"

text \<open>
  Three uploading torrents above the minimum of 3 KB/s: one reserved and limited at
  4 KB/s, two at 10 KB/s.
\<close>

definition pool_raised :: "torrent list" where
  "pool_raised = [(12, ds_of DLSTATUS_DOWNLOADING 10 0 True), (11, ds_of DLSTATUS_DOWNLOADING 4 0 True)]"

definition pool_unchanged :: "torrent list" where
  "pool_unchanged = [(13, ds_of DLSTATUS_SEEDING 9 0 True)]"

definition h_pool :: heap where
  "h_pool = (\<lambda>d. if d = 11 then dl_of 4 0 4 0 else dl_of 10 0 10 0)"

text \<open>
  The raise one torrent of \<open>raisedbelowm\<close> receives in the speed-up loop, read off the
  heap \<open>h\<close>: the smaller of \<open>toadd\<close> (scaled by \<open>limitup\<close> when \<open>up > down\<close>) and \<open>step\<close>.
\<close>

definition raise_of ::
  "ratemanager \<Rightarrow> direction \<Rightarrow> rate \<Rightarrow> rate \<Rightarrow> rate \<Rightarrow> heap \<Rightarrow> torrent \<Rightarrow> rate"
where
  "raise_of rm dir meanrate1 up down h torrent =
     (let maxup = get_max_desired_speed h (fst torrent) dir;
          toadd = (if maxup > 0 \<and> maxup \<le> meanrate1 then maxup - maxup else meanrate1 - maxup);
          toadd' = (if up > down then toadd * (down / up) else toadd);
          step = 2 * (get_current_speed (snd torrent) dir + calcupth2 rm - maxup)
      in if toadd' < step then toadd' else step)"

text \<open>
  \<open>realup\<close> after line 574: the sum of the raises applied to \<open>raisedbelowm\<close>, divided by
  the length of \<open>allabovem\<close>.
\<close>

definition realup_of ::
  "ratemanager \<Rightarrow> direction \<Rightarrow> rate \<Rightarrow> torrent list \<Rightarrow> torrent list \<Rightarrow> heap \<Rightarrow> rate"
where
  "realup_of rm dir meanrate1 raisedbelowm allabovem h =
     sum_list (map (raise_of rm dir meanrate1
                      (fold (up_step dir meanrate1 h) raisedbelowm 0)
                      (fold (down_step dir meanrate1 h) allabovem 0) h) raisedbelowm)
       / real (length allabovem)"

text \<open>
  Three downloading torrents that fill an upload cap of 13 KB/s exactly: torrent 21 wants
  more and has no reserved rate, torrents 22 and 23 are steady with reserved rates 5.25
  and 10; every enforced rate is 5.
\<close>

definition rm_exchange :: ratemanager where
  "rm_exchange =
     snd (add_downloadstate 23 (ds_of DLSTATUS_DOWNLOADING 4 0 True)
       (snd (add_downloadstate 22 (ds_of DLSTATUS_DOWNLOADING 4 0 True)
          (snd (add_downloadstate 21 (ds_of DLSTATUS_DOWNLOADING 5 0 True)
             (RateManager_init 13 13 13))))))"

definition h_exchange :: heap where
  "h_exchange =
     (\<lambda>d. if d = 21 then dl_of 5 0 0 0 else if d = 22 then dl_of 5 0 5.25 0 else dl_of 5 0 10 0)"




text \<open>
  An upload cap of 5 KB/s, an idle torrent (0.01 KB/s) with a local rate setting of 50 KB/s
  and a torrent uploading at 6 KB/s.
\<close>

definition rm_local :: ratemanager where
  "rm_local =
     snd (add_downloadstate 32 (ds_of DLSTATUS_DOWNLOADING 6 0 True)
       (snd (add_downloadstate 31 (ds_of DLSTATUS_DOWNLOADING 0.01 0 True)
          (RateManager_init 5 5 5))))"

definition h_local :: heap where
  "h_local = (\<lambda>d. if d = 31 then dl_of 50 0 50 0 else dl_of 6 0 0 0)"

section \<open>The registry\<close>

lemma add_downloadstate_seen:
  "d \<in> dset rm \<Longrightarrow> add_downloadstate d ds rm = (card (dset rm), rm)"
  by (simp add: add_downloadstate_def Let_def)

lemma add_downloadstate_dset:
  "dset (snd (add_downloadstate d ds rm)) = insert d (dset rm)"
  by (auto simp: add_downloadstate_def Let_def)

lemma add_downloadstate_count:
  "fst (add_downloadstate d ds rm) = card (dset (snd (add_downloadstate d ds rm)))"
  by (simp add: add_downloadstate_def Let_def)

text \<open>
  Claim C7. Registering the same Download object a second time in a cycle (with the same
  or a newer snapshot \<open>ds'\<close>) changes nothing: the rate manager after the second call is
  the one after the first, so both totals and all seven buckets are as after one call.
  Each of the two calls returns the number of objects in \<open>dset\<close> after the call.
\<close>

theorem add_downloadstate_idempotent:
  "snd (add_downloadstate d ds' (snd (add_downloadstate d ds rm))) = snd (add_downloadstate d ds rm) \<and>
   fst (add_downloadstate d ds rm) = card (dset (snd (add_downloadstate d ds rm))) \<and>
   fst (add_downloadstate d ds' (snd (add_downloadstate d ds rm))) =
     card (dset (snd (add_downloadstate d ds' (snd (add_downloadstate d ds rm)))))"
  using add_downloadstate_seen [of d "snd (add_downloadstate d ds rm)" ds']
  by (simp add: add_downloadstate_dset add_downloadstate_count)

lemma all_entries_clear: "all_entries (clear_downloadstates rm) = []"
  by (simp add: all_entries_def clear_downloadstates_def all_statuses_def)

lemma statusmap_clear: "statusmap (clear_downloadstates rm) s = []"
  by (cases s) (simp_all add: clear_downloadstates_def)

lemma registry_inv_clear: "registry_inv (clear_downloadstates rm)"
  by (simp add: registry_inv_def all_entries_clear total_of_def) (simp add: clear_downloadstates_def)

lemma registry_inv_init: "registry_inv (RateManager_init up seedup down)"
  using registry_inv_clear
  by (simp add: registry_inv_def RateManager_init_def all_entries_def)

lemma registry_inv_add:
  assumes "registry_inv rm"
  shows "registry_inv (snd (add_downloadstate d ds rm))"
proof (cases "d \<in> dset rm")
  case True
  then show ?thesis using assms by (simp add: add_downloadstate_seen)
next
  case False
  then have nin: "d \<notin> fst ` set (all_entries rm)"
    using assms by (simp add: registry_inv_def)
  let ?rm = "snd (add_downloadstate d ds rm)"
  have st: "statusmap ?rm =
      (statusmap rm)(get_status ds := statusmap rm (get_status ds) @ [(d, ds)])"
    using False by (simp add: add_downloadstate_def Let_def)
  have s: "fst ` set (all_entries ?rm) = insert d (fst ` set (all_entries rm))"
    unfolding all_entries_def st by (cases "get_status ds") (auto simp: all_statuses_def)
  have di: "distinct (map fst (all_entries ?rm))"
    using assms nin unfolding registry_inv_def all_entries_def st
    by (cases "get_status ds") (auto simp: all_statuses_def)
  have t: "total_of dir (all_entries ?rm) =
      total_of dir (all_entries rm) + get_current_speed ds dir" for dir
    unfolding all_entries_def st total_of_def
    by (cases "get_status ds") (simp_all add: all_statuses_def)
  have c: "currenttotal ?rm dir = currenttotal rm dir + get_current_speed ds dir" for dir
    using False by (cases dir) (simp_all add: add_downloadstate_def Let_def)
  show ?thesis
    using assms s di t c by (simp add: registry_inv_def add_downloadstate_dset)
qed

text \<open>
  Claim C8. The registry invariant (\<open>dset\<close> is exactly the set of identities in the
  buckets, each stored once, and each total is the sum of the speeds in the stored
  snapshots) holds after the constructor, is kept by \<open>add_downloadstate\<close> and holds after
  \<open>clear_downloadstates\<close>; after \<open>clear_downloadstates\<close> every bucket is empty, \<open>dset\<close> is
  empty and both totals are zero.
\<close>

theorem registry_invariant:
  "registry_inv (RateManager_init up seedup down) \<and>
   (registry_inv rm \<longrightarrow> registry_inv (snd (add_downloadstate d ds rm))) \<and>
   registry_inv (clear_downloadstates rm) \<and>
   all_entries (clear_downloadstates rm) = [] \<and>
   statusmap (clear_downloadstates rm) s = [] \<and>
   dset (clear_downloadstates rm) = {} \<and>
   currenttotal (clear_downloadstates rm) UPLOAD = 0 \<and>
   currenttotal (clear_downloadstates rm) DOWNLOAD = 0"
  by (simp add: registry_inv_init registry_inv_add registry_inv_clear all_entries_clear
        statusmap_clear)
    (simp add: clear_downloadstates_def)

theorem registry_invariant_witness:
  "registry_inv (RateManager_init 100 50 0) \<and>
   registry_inv (snd (add_downloadstate 1 (ds_of DLSTATUS_SEEDING 4 0 True) (RateManager_init 100 50 0))) \<and>
   currenttotal (snd (add_downloadstate 1 (ds_of DLSTATUS_SEEDING 4 0 True) (RateManager_init 100 50 0))) UPLOAD = 4 \<and>
   dset (snd (add_downloadstate 1 (ds_of DLSTATUS_SEEDING 4 0 True) (RateManager_init 100 50 0))) = {1}"
  using registry_invariant [of 100 50 0 "RateManager_init 100 50 0" 1 "ds_of DLSTATUS_SEEDING 4 0 True"]
  by (simp add: add_downloadstate_def RateManager_init_def clear_downloadstates_def ds_of_def Let_def)

section \<open>The commit step\<close>

lemma make_it_so_single:
  "make_it_so outer direct [(d, ds)] h =
     (case outer (h d) of Inl e \<Rightarrow> Inl (e, h) | Inr v \<Rightarrow> Inr (set_max_speed d direct v h))"
  by (simp split: sum.splits)

text \<open>
  Claim C1 (the source does not do this). Whatever \<open>d.get_max_desired_speed(dir)\<close> yields
  for the name \<open>dir\<close> of the enclosing scopes, there is a direction for which
  \<open>make_it_so\<close> does not set the enforced rate of the object of \<open>h_apply\<close> to its desired
  rate for that direction: the value read does not follow the parameter \<open>direct\<close>.
\<close>

theorem make_it_so_ignores_direct:
  "\<exists>direct. make_it_so outer direct [(0, ds)] h_apply
      \<noteq> Inr (set_max_speed 0 direct (get_max_desired_speed h_apply 0 direct) h_apply)"
proof (cases "outer (h_apply 0)")
  case (Inl e)
  then show ?thesis by (simp add: make_it_so_single)
next
  case (Inr v)
  show ?thesis
  proof (cases "v = 5")
    case True
    have "make_it_so outer DOWNLOAD [(0, ds)] h_apply
      \<noteq> Inr (set_max_speed 0 DOWNLOAD (get_max_desired_speed h_apply 0 DOWNLOAD) h_apply)"
      using Inr True
      by (auto simp add: make_it_so_single set_max_speed_def get_max_desired_speed_def
            h_apply_def dl_of_def fun_eq_iff)
    then show ?thesis by blast
  next
    case False
    have "make_it_so outer UPLOAD [(0, ds)] h_apply
      \<noteq> Inr (set_max_speed 0 UPLOAD (get_max_desired_speed h_apply 0 UPLOAD) h_apply)"
      using Inr False
      by (auto simp add: make_it_so_single set_max_speed_def get_max_desired_speed_def
            h_apply_def dl_of_def fun_eq_iff)
    then show ?thesis by blast
  qed
qed

lemma make_it_so_returns:
  "\<forall>x. \<not> isl (outer x) \<Longrightarrow> \<exists>h'. make_it_so outer direct ts h = Inr h'"
proof (induction ts arbitrary: h)
  case Nil
  then show ?case by simp
next
  case (Cons t ts)
  obtain d ds where t: "t = (d, ds)" by (cases t)
  from Cons.prems obtain v where v: "outer (h d) = Inr v"
    by (cases "outer (h d)") (auto dest: spec [of _ "h d"])
  show ?case using Cons.IH [OF Cons.prems] by (simp add: t v)
qed

lemma make_it_so_raises:
  "ts \<noteq> [] \<Longrightarrow> make_it_so outer_raises direct ts h = Inl (AccessorError, h)"
  by (cases ts) (auto simp: outer_raises_def)

lemma make_it_so_desired:
  "max_desired_speed (heap_of (make_it_so outer direct ts h) d) = max_desired_speed (h d)"
proof (induction ts arbitrary: h)
  case Nil
  then show ?case by (simp add: heap_of_def)
next
  case (Cons t ts)
  obtain d' ds where t: "t = (d', ds)" by (cases t)
  show ?case
  proof (cases "outer (h d')")
    case (Inl e)
    then show ?thesis by (simp add: t heap_of_def)
  next
    case (Inr v)
    then show ?thesis by (simp add: t Cons.IH set_max_speed_def)
  qed
qed

section \<open>The cycle\<close>

lemma redistribute_returns:
  "\<forall>x. \<not> isl (outer x) \<Longrightarrow> \<exists>h'. redistribute outer rm dir ws b h = Inr h'"
  by (simp add: redistribute_def Let_def make_it_so_returns split: prod.splits)

lemma CalculateBandwidth_returns:
  "\<forall>x. \<not> isl (outer x) \<Longrightarrow> \<exists>h'. CalculateBandwidth outer rm dir h = Inr h'"
  by (simp add: CalculateBandwidth_def CalculateBandwidth_with_def Let_def redistribute_returns
      split: prod.splits)

lemma clear_lock:
  "(clear_downloadstates (rm\<lparr>lock := Suc (lock rm)\<rparr>))
     \<lparr>lock := lock (clear_downloadstates (rm\<lparr>lock := Suc (lock rm)\<rparr>)) - Suc 0\<rparr> =
   clear_downloadstates rm"
  by (simp add: clear_downloadstates_def)

text \<open>
  What \<open>adjust_speeds\<close> leaves behind. If the read in \<open>make_it_so\<close> never raises,
  \<open>adjust_speeds\<close> returns and the rate manager it leaves is \<open>clear_downloadstates\<close> of
  the one it was given (the lock released again). Whenever \<open>adjust_speeds\<close> returns, that
  is the rate manager it leaves. When it raises, the rate manager is the one it was given
  with the lock held once more.
\<close>

theorem adjust_speeds_clears:
  "((\<forall>x. \<not> isl (outer x)) \<longrightarrow>
      (\<exists>h'. adjust_speeds outer (rm, h) = Inr (clear_downloadstates rm, h'))) \<and>
   (adjust_speeds outer (rm, h) = Inr (rm', h') \<longrightarrow> rm' = clear_downloadstates rm) \<and>
   (adjust_speeds outer (rm, h) = Inl (e, rm', h') \<longrightarrow> rm' = rm\<lparr>lock := lock rm + 1\<rparr>)"
proof (intro conjI impI)
  assume a: "\<forall>x. \<not> isl (outer x)"
  obtain h1 where h1:
    "CalculateBandwidth outer (rm\<lparr>lock := Suc (lock rm)\<rparr>) DOWNLOAD h = Inr h1"
    using CalculateBandwidth_returns [OF a] by blast
  obtain h2 where h2:
    "CalculateBandwidth outer (rm\<lparr>lock := Suc (lock rm)\<rparr>) UPLOAD h1 = Inr h2"
    using CalculateBandwidth_returns [OF a] by blast
  show "\<exists>h'. adjust_speeds outer (rm, h) = Inr (clear_downloadstates rm, h')"
    by (simp add: adjust_speeds_def Let_def h1 h2 clear_lock)
next
  assume "adjust_speeds outer (rm, h) = Inr (rm', h')"
  then show "rm' = clear_downloadstates rm"
    by (auto simp: adjust_speeds_def Let_def clear_lock split: sum.splits prod.splits)
next
  assume "adjust_speeds outer (rm, h) = Inl (e, rm', h')"
  then show "rm' = rm\<lparr>lock := lock rm + 1\<rparr>"
    by (auto simp: adjust_speeds_def Let_def split: sum.splits prod.splits)
qed

lemma rm_deficit_eval:
  "statusmap rm_deficit DLSTATUS_DOWNLOADING =
     [(1, ds_of DLSTATUS_DOWNLOADING 4 4 True), (2, ds_of DLSTATUS_DOWNLOADING 4 4 True)]"
  "statusmap rm_deficit DLSTATUS_SEEDING = []"
  "currenttotal rm_deficit UPLOAD = 8"
  "currenttotal rm_deficit DOWNLOAD = 8"
  "max_upload_rate rm_deficit = 5"
  "max_download_rate rm_deficit = 5"
  "meancalcupth rm_deficit = 3 / 2"
  "calcupth1 rm_deficit = 23 / 10"
  "calcupth2 rm_deficit = 7 / 10"
  "rateminimum rm_deficit UPLOAD = 3"
  "rateminimum rm_deficit DOWNLOAD = 1 / 100"
  "lock rm_deficit = 0"
  by (simp_all add: rm_deficit_def RateManager_init_def add_downloadstate_def
        clear_downloadstates_def Let_def ds_of_def)

lemma rm_deficit_locked:
  "statusmap (rm_deficit\<lparr>lock := n\<rparr>) = statusmap rm_deficit"
  "currenttotal (rm_deficit\<lparr>lock := n\<rparr>) = currenttotal rm_deficit"
  "max_upload_rate (rm_deficit\<lparr>lock := n\<rparr>) = max_upload_rate rm_deficit"
  "max_download_rate (rm_deficit\<lparr>lock := n\<rparr>) = max_download_rate rm_deficit"
  "meancalcupth (rm_deficit\<lparr>lock := n\<rparr>) = meancalcupth rm_deficit"
  "calcupth1 (rm_deficit\<lparr>lock := n\<rparr>) = calcupth1 rm_deficit"
  "calcupth2 (rm_deficit\<lparr>lock := n\<rparr>) = calcupth2 rm_deficit"
  "rateminimum (rm_deficit\<lparr>lock := n\<rparr>) = rateminimum rm_deficit"
  by simp_all

lemmas allocator_defs =
  CalculateBandwidth_def CalculateBandwidth_with_def prioritizelocal_def
  workingset_def MaxRate_def classify_def dispatch_def no_buckets_def free_wheeling_def
  free_wheel_step_def redistribute_def raise_in_priority_step_def grant_local_step_def
  give_back_step_def available_of_def phase1_def claim_step_def phase1_step_def phase2a_def
  rate_id_of_def lower_pool_step_def phase2bc_def mean_of_def raisedbelowm_of_def
  allabovem_of_def phase2c_def up_step_def down_step_def speed_up_step_def slow_down_step_def
  get_max_speed_def get_max_desired_speed_def set_max_speed_def set_max_desired_speed_def

lemma deficit_download_raises:
  "isl (CalculateBandwidth outer_raises (rm_deficit\<lparr>lock := Suc 0\<rparr>) DOWNLOAD h_deficit)"
  by (simp add: allocator_defs rm_deficit_eval rm_deficit_locked Let_def h_deficit_def ds_of_def
        dl_of_def outer_raises_def)

text \<open>
  Claim C2 (the source does not do this). Two downloading torrents under caps of 5 KB/s,
  and a Download whose accessor raises on the argument \<open>make_it_so\<close> hands it (the read of
  claim C1): the exception of the first \<open>CalculateBandwidth\<close> call leaves \<open>adjust_speeds\<close>,
  which has no \<open>try\<close> where \<open>add_downloadstate\<close> has \<open>try\<close> and \<open>finally\<close>. The cycle
  does not complete: the registry still holds both torrents, \<open>clear_downloadstates\<close> has
  not run, and the lock is held once.
\<close>

theorem adjust_speeds_propagates:
  "isl (adjust_speeds outer_raises (rm_deficit, h_deficit)) \<and>
   fst (snd (projl (adjust_speeds outer_raises (rm_deficit, h_deficit)))) =
     rm_deficit\<lparr>lock := 1\<rparr> \<and>
   length (all_entries (rm_deficit\<lparr>lock := 1\<rparr>)) = 2 \<and>
   dset (rm_deficit\<lparr>lock := 1\<rparr>) = {1, 2}"
proof -
  obtain e h' where r:
    "CalculateBandwidth outer_raises (rm_deficit\<lparr>lock := Suc 0\<rparr>) DOWNLOAD h_deficit = Inl (e, h')"
    using deficit_download_raises
    by (cases "CalculateBandwidth outer_raises (rm_deficit\<lparr>lock := Suc 0\<rparr>) DOWNLOAD h_deficit")
       auto
  have a: "adjust_speeds outer_raises (rm_deficit, h_deficit) =
      Inl (e, rm_deficit\<lparr>lock := Suc 0\<rparr>, h')"
    by (simp add: adjust_speeds_def Let_def rm_deficit_eval r)
  have "length (all_entries (rm_deficit\<lparr>lock := 1\<rparr>)) = 2"
    by (simp add: all_entries_def all_statuses_def rm_deficit_def RateManager_init_def
          add_downloadstate_def clear_downloadstates_def Let_def ds_of_def)
  moreover have "dset (rm_deficit\<lparr>lock := 1\<rparr>) = {1, 2}"
    by (auto simp add: rm_deficit_def RateManager_init_def
          add_downloadstate_def clear_downloadstates_def Let_def ds_of_def)
  ultimately show ?thesis by (simp add: a)
qed

theorem adjust_speeds_clears_witness:
  "(\<exists>h'. adjust_speeds outer_download (rm_deficit, h_deficit) =
       Inr (clear_downloadstates rm_deficit, h')) \<and>
   all_entries (clear_downloadstates rm_deficit) = [] \<and>
   fst (snd (projl (adjust_speeds outer_raises (rm_deficit, h_deficit)))) =
     rm_deficit\<lparr>lock := lock rm_deficit + 1\<rparr>"
proof -
  have ok: "\<forall>x. \<not> isl (outer_download x)" by (simp add: outer_download_def)
  have 1: "\<exists>h'. adjust_speeds outer_download (rm_deficit, h_deficit) =
       Inr (clear_downloadstates rm_deficit, h')"
    using adjust_speeds_clears [of outer_download rm_deficit h_deficit] ok by blast
  have "isl (adjust_speeds outer_raises (rm_deficit, h_deficit))"
    by (simp add: adjust_speeds_def Let_def rm_deficit_eval deficit_download_raises
          split: sum.splits prod.splits)
       (use deficit_download_raises in auto)
  then obtain e rm' h' where
    r: "adjust_speeds outer_raises (rm_deficit, h_deficit) = Inl (e, rm', h')"
    by (cases "adjust_speeds outer_raises (rm_deficit, h_deficit)") auto
  have 3: "rm' = rm_deficit\<lparr>lock := lock rm_deficit + 1\<rparr>"
    using adjust_speeds_clears [of outer_raises rm_deficit h_deficit rm' h' e] r by blast
  show ?thesis using 1 3 by (simp add: r all_entries_clear)
qed

section \<open>The unlimited case\<close>

lemma fold_unlimited_desired:
  "max_desired_speed (fold (unlimited_step dir) ws h d) = max_desired_speed (h d)"
  by (induction ws arbitrary: h)
     (simp_all add: unlimited_step_def set_max_speed_def)

lemma fold_unlimited_limit:
  "max_speed (fold (unlimited_step dir) ws h d) dir' =
     (if d \<in> fst ` set ws \<and> dir' = dir then max_desired_speed (h d) dir
      else max_speed (h d) dir')"
  by (induction ws arbitrary: h)
     (auto simp add: unlimited_step_def set_max_speed_def get_max_desired_speed_def)

text \<open>
  Claim C3. With a non-empty working set and \<open>MaxRate(dir) = 0\<close>, \<open>CalculateBandwidth\<close>
  returns; afterwards the enforced rate for \<open>dir\<close> of every torrent of the working set is
  its desired rate for \<open>dir\<close> from before the call, no desired rate of any object has
  changed (so the dispatch loop, which resets desired rates, has not run), and no other
  enforced rate has changed.
\<close>

theorem unlimited_pass_through:
  assumes "workingset rm dir \<noteq> []" and "MaxRate rm dir = 0"
  shows "\<exists>h'. CalculateBandwidth outer rm dir h = Inr h' \<and>
     (\<forall>t \<in> set (workingset rm dir).
        get_max_speed h' (fst t) dir = get_max_desired_speed h (fst t) dir) \<and>
     (\<forall>d dir'. get_max_desired_speed h' d dir' = get_max_desired_speed h d dir') \<and>
     (\<forall>d dir'. d \<notin> fst ` set (workingset rm dir) \<or> dir' \<noteq> dir \<longrightarrow>
        get_max_speed h' d dir' = get_max_speed h d dir')"
proof -
  let ?h = "fold (unlimited_step dir) (workingset rm dir) h"
  have "CalculateBandwidth outer rm dir h = Inr ?h"
    using assms by (simp add: CalculateBandwidth_def CalculateBandwidth_with_def Let_def)
  moreover have "\<forall>t \<in> set (workingset rm dir).
        get_max_speed ?h (fst t) dir = get_max_desired_speed h (fst t) dir"
    by (simp add: get_max_speed_def get_max_desired_speed_def fold_unlimited_limit)
  moreover have "\<forall>d dir'. get_max_desired_speed ?h d dir' = get_max_desired_speed h d dir'"
    by (simp add: get_max_desired_speed_def fold_unlimited_desired)
  moreover have "\<forall>d dir'. d \<notin> fst ` set (workingset rm dir) \<or> dir' \<noteq> dir \<longrightarrow>
        get_max_speed ?h d dir' = get_max_speed h d dir'"
    by (auto simp add: get_max_speed_def fold_unlimited_limit)
  ultimately show ?thesis by blast
qed

lemma rm_unlimited_eval:
  "workingset rm_unlimited DOWNLOAD = [(1, ds_of DLSTATUS_DOWNLOADING 2 10 True)]"
  "MaxRate rm_unlimited DOWNLOAD = 0"
  by (simp_all add: workingset_def MaxRate_def rm_unlimited_def RateManager_init_def
        add_downloadstate_def clear_downloadstates_def Let_def ds_of_def)

theorem unlimited_pass_through_witness:
  "workingset rm_unlimited DOWNLOAD \<noteq> [] \<and> MaxRate rm_unlimited DOWNLOAD = 0 \<and>
   get_max_desired_speed h_unlimited 1 DOWNLOAD = 30 \<and>
   (\<exists>h'. CalculateBandwidth outer_raises rm_unlimited DOWNLOAD h_unlimited = Inr h' \<and>
      get_max_speed h' 1 DOWNLOAD = 30 \<and> get_max_desired_speed h' 1 DOWNLOAD = 30 \<and>
      get_max_speed h' 1 UPLOAD = 8)"
proof -
  have ne: "workingset rm_unlimited DOWNLOAD \<noteq> []" by (simp add: rm_unlimited_eval)
  have z: "MaxRate rm_unlimited DOWNLOAD = 0" by (simp add: rm_unlimited_eval)
  have v: "get_max_desired_speed h_unlimited 1 DOWNLOAD = 30"
    "get_max_speed h_unlimited 1 UPLOAD = 8"
    by (simp_all add: get_max_desired_speed_def get_max_speed_def h_unlimited_def dl_of_def)
  from unlimited_pass_through [OF ne z, of outer_raises h_unlimited]
  obtain h' where h':
    "CalculateBandwidth outer_raises rm_unlimited DOWNLOAD h_unlimited = Inr h'"
    "\<forall>t \<in> set (workingset rm_unlimited DOWNLOAD).
        get_max_speed h' (fst t) DOWNLOAD = get_max_desired_speed h_unlimited (fst t) DOWNLOAD"
    "\<forall>d dir'. get_max_desired_speed h' d dir' = get_max_desired_speed h_unlimited d dir'"
    "\<forall>d dir'. d \<notin> fst ` set (workingset rm_unlimited DOWNLOAD) \<or> dir' \<noteq> DOWNLOAD \<longrightarrow>
        get_max_speed h' d dir' = get_max_speed h_unlimited d dir'"
    by blast
  have "get_max_speed h' 1 DOWNLOAD = 30" using h'(2) v by (simp add: rm_unlimited_eval)
  moreover have "get_max_desired_speed h' 1 DOWNLOAD = 30" using h'(3) v by simp
  moreover have "get_max_speed h' 1 UPLOAD = 8" using h'(4) v by simp
  ultimately show ?thesis using ne z v h'(1) by blast
qed

section \<open>The working set and the dispatch loop\<close>

lemma distinct_workingset:
  assumes "registry_inv rm"
  shows "distinct (map fst (workingset rm dir))"
proof -
  have d: "distinct (map fst (statusmap rm DLSTATUS_DOWNLOADING @ statusmap rm DLSTATUS_SEEDING))"
    using assms by (auto simp: registry_inv_def all_entries_def all_statuses_def)
  then have d': "distinct (map fst (statusmap rm DLSTATUS_DOWNLOADING))" by simp
  show ?thesis
  proof (cases dir)
    case UPLOAD
    then show ?thesis using distinct_map_filter [OF d] by (simp add: workingset_def)
  next
    case DOWNLOAD
    then show ?thesis using distinct_map_filter [OF d'] by (simp add: workingset_def)
  qed
qed

lemma dispatch_False_limit:
  "max_speed (snd (dispatch False rm dir t bh) d) = max_speed (snd bh d)"
  by (simp add: dispatch_def Let_def set_max_desired_speed_def)

lemma dispatch_False_desired:
  "max_desired_speed (snd (dispatch False rm dir t bh) d) dir' =
     (if d = fst t \<and> dir' = dir \<and> get_current_speed (snd t) dir < 0.05 then 0
      else max_desired_speed (snd bh d) dir')"
  by (simp add: dispatch_def Let_def set_max_desired_speed_def)

lemma classify_False_limit:
  "max_speed (snd (fold (dispatch False rm dir) ws bh) d) = max_speed (snd bh d)"
  by (induction ws arbitrary: bh) (simp_all add: dispatch_False_limit)

lemma classify_False_desired:
  "max_desired_speed (snd (fold (dispatch False rm dir) ws bh) d) dir' =
     (if dir' = dir \<and> (\<exists>t \<in> set ws. fst t = d \<and> get_current_speed (snd t) dir < 0.05) then 0
      else max_desired_speed (snd bh d) dir')"
proof (induction ws arbitrary: bh)
  case Nil
  then show ?case by simp
next
  case (Cons t ts)
  show ?case
    by (simp add: Cons.IH dispatch_False_desired) blast
qed

section \<open>The free wheeling shortcut\<close>

lemma free_wheel_step_other:
  "d \<noteq> fst t \<Longrightarrow> free_wheel_step rm dir t h d = h d"
  by (simp add: free_wheel_step_def Let_def set_max_speed_def set_max_desired_speed_def
        split: prod.splits)

lemma free_wheeling_other:
  "d \<notin> fst ` set ws \<Longrightarrow> fold (free_wheel_step rm dir) ws h d = h d"
  by (induction ws arbitrary: h) (auto simp: free_wheel_step_other)

lemma free_wheel_step_self:
  "free_wheel_step rm dir (d, ds) h d =
     \<lparr>max_speed = (max_speed (h d))
        (dir := if max_desired_speed (h d) dir > 0 then max_desired_speed (h d) dir
                else MaxRate rm dir),
      max_desired_speed = (max_desired_speed (h d))
        (dir := if max_desired_speed (h d) dir > 0 \<and>
                   get_current_speed ds dir + meancalcupth rm > max_desired_speed (h d) dir
                then max_desired_speed (h d) dir
                else get_current_speed ds dir + meancalcupth rm)\<rparr>"
  by (simp add: free_wheel_step_def Let_def set_max_speed_def set_max_desired_speed_def
        get_max_desired_speed_def split: prod.splits)

lemma free_wheeling_member:
  "distinct (map fst ws) \<Longrightarrow> (d, ds) \<in> set ws \<Longrightarrow>
   fold (free_wheel_step rm dir) ws h d = free_wheel_step rm dir (d, ds) h d"
proof (induction ws arbitrary: h)
  case Nil
  then show ?case by simp
next
  case (Cons t ts)
  show ?case
  proof (cases "t = (d, ds)")
    case True
    then have "d \<notin> fst ` set ts" using Cons.prems(1) by auto
    then show ?thesis using True by (simp add: free_wheeling_other)
  next
    case False
    then have m: "(d, ds) \<in> set ts" using Cons.prems(2) by simp
    then have ne: "d \<noteq> fst t" using Cons.prems(1) by (auto simp: image_iff)
    have "fold (free_wheel_step rm dir) (t # ts) h d =
          free_wheel_step rm dir (d, ds) (free_wheel_step rm dir t h) d"
      using Cons.IH [OF _ m] Cons.prems(1) by simp
    also have "\<dots> = free_wheel_step rm dir (d, ds) h d"
      by (simp add: free_wheel_step_self free_wheel_step_other [OF ne])
    finally show ?thesis .
  qed
qed

lemma free_wheeling_taken:
  assumes "workingset rm dir \<noteq> []" and "MaxRate rm dir \<noteq> 0"
    and "1 - currenttotal rm dir / MaxRate rm dir > 0.20"
  shows "CalculateBandwidth outer rm dir h =
           Inr (free_wheeling rm dir (workingset rm dir)
                  (snd (classify False rm dir (workingset rm dir) h)))"
  using assms
  by (simp add: CalculateBandwidth_def CalculateBandwidth_with_def prioritizelocal_def Let_def
        split: prod.splits)

lemma classified_desired:
  assumes di: "distinct (map fst ws)" and mem: "(d, ds) \<in> set ws"
  shows "max_desired_speed (snd (classify False rm dir ws h) d) dir =
      (if get_current_speed ds dir < 0.05 then 0 else max_desired_speed (h d) dir)"
proof -
  have uniq: "t = (d, ds)" if "fst t = d" "t \<in> set ws" for t
  proof -
    obtain d' ds' where t: "t = (d', ds')" by (cases t)
    with that have "(d, ds') \<in> set ws" by simp
    with di mem have "ds' = ds" by (rule_tac eq_key_imp_eq_value [of ws d ds' ds])
    with t that show ?thesis by simp
  qed
  show ?thesis
  proof (cases "get_current_speed ds dir < 0.05")
    case True
    then have "\<exists>t \<in> set ws. fst t = d \<and> get_current_speed (snd t) dir < 0.05"
      using mem by force
    then have y: "(\<exists>t \<in> set ws. fst t = d \<and> get_current_speed (snd t) dir < 0.05) = True"
      by simp
    show ?thesis
      unfolding classify_def classify_False_desired
      by (simp only: y True if_True simp_thms)
  next
    case False
    have n: "\<not> (\<exists>t \<in> set ws. fst t = d \<and> get_current_speed (snd t) dir < 0.05)"
    proof
      assume "\<exists>t \<in> set ws. fst t = d \<and> get_current_speed (snd t) dir < 0.05"
      then obtain t where t: "t \<in> set ws" "fst t = d" "get_current_speed (snd t) dir < 0.05"
        by blast
      from uniq [OF t(2) t(1)] t(3) False show False by simp
    qed
    show ?thesis
      unfolding classify_def classify_False_desired
      by (simp only: n False if_False simp_thms snd_conv)
  qed
qed

lemma free_wheeling_desired:
  assumes di: "distinct (map fst ws)" and mem: "(d, ds) \<in> set ws"
  shows "get_max_desired_speed (free_wheeling rm dir ws (snd (classify False rm dir ws h))) d dir =
         (let localcap = (if get_current_speed ds dir < 0.05 then 0
                          else get_max_desired_speed h d dir);
              newDesired = get_current_speed ds dir + meancalcupth rm
          in if localcap > 0 \<and> newDesired > localcap then localcap else newDesired)"
  unfolding free_wheeling_def get_max_desired_speed_def free_wheeling_member [OF di mem]
    free_wheel_step_self
  by (simp add: classified_desired [OF di mem] Let_def)

lemma free_wheeling_limit:
  assumes di: "distinct (map fst ws)" and mem: "(d, ds) \<in> set ws"
  shows "get_max_speed (free_wheeling rm dir ws (snd (classify False rm dir ws h))) d dir =
         (let localcap = (if get_current_speed ds dir < 0.05 then 0
                          else get_max_desired_speed h d dir)
          in if localcap > 0 then localcap else MaxRate rm dir)"
  unfolding free_wheeling_def get_max_speed_def get_max_desired_speed_def
    free_wheeling_member [OF di mem] free_wheel_step_self
  by (simp add: classified_desired [OF di mem] Let_def)

lemma free_wheeling_rest:
  assumes a: "d \<notin> fst ` set ws"
  shows "free_wheeling rm dir ws (snd (classify False rm dir ws h)) d = h d"
proof -
  have "max_desired_speed (snd (classify False rm dir ws h) d) = max_desired_speed (h d)"
    using a by (auto simp: classify_def classify_False_desired fun_eq_iff)
  moreover have "max_speed (snd (classify False rm dir ws h) d) = max_speed (h d)"
    by (simp add: classify_def classify_False_limit)
  ultimately have "snd (classify False rm dir ws h) d = h d"
    by (simp add: download.equality)
  then show ?thesis using a by (simp add: free_wheeling_def free_wheeling_other)
qed

lemma rm_free_eval:
  "workingset rm_free DOWNLOAD = [(1, ds_of DLSTATUS_DOWNLOADING 0 40 True)]"
  "MaxRate rm_free DOWNLOAD = 100"
  "currenttotal rm_free DOWNLOAD = 50"
  "meancalcupth rm_free = 3 / 2"
  "calcupth1 rm_free = 23 / 10"
  "calcupth2 rm_free = 7 / 10"
  by (simp_all add: workingset_def MaxRate_def rm_free_def RateManager_init_def
        add_downloadstate_def clear_downloadstates_def Let_def ds_of_def)

lemma registry_inv_rm_free: "registry_inv rm_free"
  unfolding rm_free_def by (intro registry_inv_add registry_inv_init)

lemma free_wheeling_general:
  assumes inv: "registry_inv rm" and mem: "(d, ds) \<in> set (workingset rm dir)"
    and cap: "MaxRate rm dir \<noteq> 0" and idle: "1 - currenttotal rm dir / MaxRate rm dir > 0.20"
    and mean: "meancalcupth rm = (calcupth1 rm + calcupth2 rm) / 2"
  shows "\<exists>h'. CalculateBandwidth outer rm dir h = Inr h' \<and>
       get_max_desired_speed h' d dir =
         (let localcap = (if get_current_speed ds dir < 0.05 then 0
                          else get_max_desired_speed h d dir);
              newDesired = get_current_speed ds dir + (calcupth1 rm + calcupth2 rm) / 2
          in if localcap > 0 \<and> newDesired > localcap then localcap else newDesired) \<and>
       get_max_speed h' d dir =
         (let localcap = (if get_current_speed ds dir < 0.05 then 0
                          else get_max_desired_speed h d dir)
          in if localcap > 0 then localcap else MaxRate rm dir) \<and>
       (\<forall>d'. d' \<notin> fst ` set (workingset rm dir) \<longrightarrow> h' d' = h d')"
proof -
  have ne: "workingset rm dir \<noteq> []" using mem by auto
  have di: "distinct (map fst (workingset rm dir))" by (rule distinct_workingset [OF inv])
  let ?h = "free_wheeling rm dir (workingset rm dir)
                  (snd (classify False rm dir (workingset rm dir) h))"
  have 1: "CalculateBandwidth outer rm dir h = Inr ?h"
    by (rule free_wheeling_taken [OF ne cap idle])
  have 2: "get_max_desired_speed ?h d dir =
         (let localcap = (if get_current_speed ds dir < 0.05 then 0
                          else get_max_desired_speed h d dir);
              newDesired = get_current_speed ds dir + (calcupth1 rm + calcupth2 rm) / 2
          in if localcap > 0 \<and> newDesired > localcap then localcap else newDesired)"
    using free_wheeling_desired [OF di mem, of rm dir h] by (simp only: mean)
  have 3: "get_max_speed ?h d dir =
         (let localcap = (if get_current_speed ds dir < 0.05 then 0
                          else get_max_desired_speed h d dir)
          in if localcap > 0 then localcap else MaxRate rm dir)"
    by (rule free_wheeling_limit [OF di mem])
  have 4: "\<forall>d'. d' \<notin> fst ` set (workingset rm dir) \<longrightarrow> ?h d' = h d'"
    using free_wheeling_rest by blast
  show ?thesis using 1 2 3 4 by blast
qed

text \<open>
  Claim C4, amended. In a state built by \<open>add_downloadstate\<close> (the registry invariant), with
  \<open>MaxRate(dir) \<noteq> 0\<close> and \<open>1 - currenttotal[dir] / MaxRate(dir) > 0.20\<close>,
  \<open>CalculateBandwidth\<close> returns, and for every torrent \<open>(d, ds)\<close> of the working set:
  with the local cap being the desired rate the shortcut loop reads (the desired rate
  from before the call, or 0 when the dispatch loop has just reset it because the
  measured rate is below 0.05), the new desired rate is the measured rate plus
  \<open>(calcupth1 + calcupth2) / 2\<close>, clamped down to the local cap when that is positive, and
  the enforced rate is the local cap when positive and \<open>MaxRate(dir)\<close> otherwise; objects
  outside the working set are untouched, and the result is \<open>Inr\<close>, so \<open>make_it_so\<close> has
  not run. In the scenario (cap 100, total 50, one torrent measured at 40, desired rate 0)
  the desired rate becomes 40 + 1.5 and the enforced rate 100.
\<close>

theorem free_wheeling_shortcut:
  "(registry_inv rm \<and> (d, ds) \<in> set (workingset rm dir) \<and> MaxRate rm dir \<noteq> 0 \<and>
    1 - currenttotal rm dir / MaxRate rm dir > 0.20 \<and>
    meancalcupth rm = (calcupth1 rm + calcupth2 rm) / 2 \<longrightarrow>
    (\<exists>h'. CalculateBandwidth outer rm dir h = Inr h' \<and>
       get_max_desired_speed h' d dir =
         (let localcap = (if get_current_speed ds dir < 0.05 then 0
                          else get_max_desired_speed h d dir);
              newDesired = get_current_speed ds dir + (calcupth1 rm + calcupth2 rm) / 2
          in if localcap > 0 \<and> newDesired > localcap then localcap else newDesired) \<and>
       get_max_speed h' d dir =
         (let localcap = (if get_current_speed ds dir < 0.05 then 0
                          else get_max_desired_speed h d dir)
          in if localcap > 0 then localcap else MaxRate rm dir) \<and>
       (\<forall>d'. d' \<notin> fst ` set (workingset rm dir) \<longrightarrow> h' d' = h d'))) \<and>
   MaxRate rm_free DOWNLOAD = 100 \<and> currenttotal rm_free DOWNLOAD = 50 \<and>
   workingset rm_free DOWNLOAD = [(1, ds_of DLSTATUS_DOWNLOADING 0 40 True)] \<and>
   get_current_speed (ds_of DLSTATUS_DOWNLOADING 0 40 True) DOWNLOAD = 40 \<and>
   get_max_desired_speed h_free 1 DOWNLOAD = 0 \<and>
   (\<exists>h'. CalculateBandwidth outer rm_free DOWNLOAD h_free = Inr h' \<and>
      get_max_desired_speed h' 1 DOWNLOAD = 40 + 1.5 \<and> get_max_speed h' 1 DOWNLOAD = 100)"
proof (intro conjI impI)
  assume a: "registry_inv rm \<and> (d, ds) \<in> set (workingset rm dir) \<and> MaxRate rm dir \<noteq> 0 \<and>
    1 - currenttotal rm dir / MaxRate rm dir > 0.20 \<and>
    meancalcupth rm = (calcupth1 rm + calcupth2 rm) / 2"
  show "\<exists>h'. CalculateBandwidth outer rm dir h = Inr h' \<and>
       get_max_desired_speed h' d dir =
         (let localcap = (if get_current_speed ds dir < 0.05 then 0
                          else get_max_desired_speed h d dir);
              newDesired = get_current_speed ds dir + (calcupth1 rm + calcupth2 rm) / 2
          in if localcap > 0 \<and> newDesired > localcap then localcap else newDesired) \<and>
       get_max_speed h' d dir =
         (let localcap = (if get_current_speed ds dir < 0.05 then 0
                          else get_max_desired_speed h d dir)
          in if localcap > 0 then localcap else MaxRate rm dir) \<and>
       (\<forall>d'. d' \<notin> fst ` set (workingset rm dir) \<longrightarrow> h' d' = h d')"
    by (rule free_wheeling_general) (use a in simp_all)
next
  show "MaxRate rm_free DOWNLOAD = 100" by (simp add: rm_free_eval)
  show "currenttotal rm_free DOWNLOAD = 50" by (simp add: rm_free_eval)
  show "workingset rm_free DOWNLOAD = [(1, ds_of DLSTATUS_DOWNLOADING 0 40 True)]"
    by (simp add: rm_free_eval)
  show m: "get_current_speed (ds_of DLSTATUS_DOWNLOADING 0 40 True) DOWNLOAD = 40"
    by (simp add: ds_of_def)
  show z: "get_max_desired_speed h_free 1 DOWNLOAD = 0"
    by (simp add: get_max_desired_speed_def h_free_def dl_of_def)
  have mem: "(1, ds_of DLSTATUS_DOWNLOADING 0 40 True) \<in> set (workingset rm_free DOWNLOAD)"
    by (simp add: rm_free_eval)
  have cap: "MaxRate rm_free DOWNLOAD \<noteq> 0" by (simp add: rm_free_eval)
  have idle: "1 - currenttotal rm_free DOWNLOAD / MaxRate rm_free DOWNLOAD > 0.20"
    by (simp add: rm_free_eval)
  have mean: "meancalcupth rm_free = (calcupth1 rm_free + calcupth2 rm_free) / 2"
    by (simp add: rm_free_eval)
  from free_wheeling_general [OF registry_inv_rm_free mem cap idle mean, of outer h_free]
  obtain h' where h': "CalculateBandwidth outer rm_free DOWNLOAD h_free = Inr h'"
    "get_max_desired_speed h' 1 DOWNLOAD =
         (let localcap = (if get_current_speed (ds_of DLSTATUS_DOWNLOADING 0 40 True) DOWNLOAD < 0.05
                          then 0 else get_max_desired_speed h_free 1 DOWNLOAD);
              newDesired = get_current_speed (ds_of DLSTATUS_DOWNLOADING 0 40 True) DOWNLOAD +
                 (calcupth1 rm_free + calcupth2 rm_free) / 2
          in if localcap > 0 \<and> newDesired > localcap then localcap else newDesired)"
    "get_max_speed h' 1 DOWNLOAD =
         (let localcap = (if get_current_speed (ds_of DLSTATUS_DOWNLOADING 0 40 True) DOWNLOAD < 0.05
                          then 0 else get_max_desired_speed h_free 1 DOWNLOAD)
          in if localcap > 0 then localcap else MaxRate rm_free DOWNLOAD)"
    by blast
  have "get_max_desired_speed h' 1 DOWNLOAD = 40 + 1.5"
    unfolding h'(2) m z by (simp add: rm_free_eval)
  moreover have "get_max_speed h' 1 DOWNLOAD = 100"
    unfolding h'(3) m z by (simp add: rm_free_eval)
  ultimately show "\<exists>h'. CalculateBandwidth outer rm_free DOWNLOAD h_free = Inr h' \<and>
      get_max_desired_speed h' 1 DOWNLOAD = 40 + 1.5 \<and> get_max_speed h' 1 DOWNLOAD = 100"
    using h'(1) by blast
qed

theorem free_wheeling_shortcut_witness:
  "registry_inv rm_free \<and>
   (1, ds_of DLSTATUS_DOWNLOADING 0 40 True) \<in> set (workingset rm_free DOWNLOAD) \<and>
   MaxRate rm_free DOWNLOAD \<noteq> 0 \<and>
   1 - currenttotal rm_free DOWNLOAD / MaxRate rm_free DOWNLOAD > 0.20 \<and>
   meancalcupth rm_free = (calcupth1 rm_free + calcupth2 rm_free) / 2 \<and>
   get_max_desired_speed h_capped 1 DOWNLOAD = 30 \<and>
   (\<exists>h'. CalculateBandwidth outer_raises rm_free DOWNLOAD h_capped = Inr h' \<and>
      get_max_desired_speed h' 1 DOWNLOAD = 30 \<and> get_max_speed h' 1 DOWNLOAD = 30 \<and>
      h' 2 = h_capped 2)"
proof -
  have mem: "(1, ds_of DLSTATUS_DOWNLOADING 0 40 True) \<in> set (workingset rm_free DOWNLOAD)"
    by (simp add: rm_free_eval)
  have cap: "MaxRate rm_free DOWNLOAD \<noteq> 0" by (simp add: rm_free_eval)
  have idle: "1 - currenttotal rm_free DOWNLOAD / MaxRate rm_free DOWNLOAD > 0.20"
    by (simp add: rm_free_eval)
  have mean: "meancalcupth rm_free = (calcupth1 rm_free + calcupth2 rm_free) / 2"
    by (simp add: rm_free_eval)
  have c: "get_max_desired_speed h_capped 1 DOWNLOAD = 30"
    by (simp add: get_max_desired_speed_def h_capped_def dl_of_def)
  have hyp: "registry_inv rm_free \<and>
    (1, ds_of DLSTATUS_DOWNLOADING 0 40 True) \<in> set (workingset rm_free DOWNLOAD) \<and>
    MaxRate rm_free DOWNLOAD \<noteq> 0 \<and>
    1 - currenttotal rm_free DOWNLOAD / MaxRate rm_free DOWNLOAD > 0.20 \<and>
    meancalcupth rm_free = (calcupth1 rm_free + calcupth2 rm_free) / 2"
    using registry_inv_rm_free mem cap idle mean by blast
  have m: "get_current_speed (ds_of DLSTATUS_DOWNLOADING 0 40 True) DOWNLOAD = 40"
    by (simp add: ds_of_def)
  have two: "(2::nat) \<notin> fst ` set (workingset rm_free DOWNLOAD)"
    by (simp add: rm_free_eval)
  from free_wheeling_shortcut [of rm_free 1 "ds_of DLSTATUS_DOWNLOADING 0 40 True" DOWNLOAD
      outer_raises h_capped] hyp
  obtain h' where h': "CalculateBandwidth outer_raises rm_free DOWNLOAD h_capped = Inr h'"
    "get_max_desired_speed h' 1 DOWNLOAD =
         (let localcap = (if get_current_speed (ds_of DLSTATUS_DOWNLOADING 0 40 True) DOWNLOAD < 0.05
                          then 0 else get_max_desired_speed h_capped 1 DOWNLOAD);
              newDesired = get_current_speed (ds_of DLSTATUS_DOWNLOADING 0 40 True) DOWNLOAD +
                 (calcupth1 rm_free + calcupth2 rm_free) / 2
          in if localcap > 0 \<and> newDesired > localcap then localcap else newDesired)"
    "get_max_speed h' 1 DOWNLOAD =
         (let localcap = (if get_current_speed (ds_of DLSTATUS_DOWNLOADING 0 40 True) DOWNLOAD < 0.05
                          then 0 else get_max_desired_speed h_capped 1 DOWNLOAD)
          in if localcap > 0 then localcap else MaxRate rm_free DOWNLOAD)"
    "\<forall>d'. d' \<notin> fst ` set (workingset rm_free DOWNLOAD) \<longrightarrow> h' d' = h_capped d'"
    by blast
  have "get_max_desired_speed h' 1 DOWNLOAD = 30"
    unfolding h'(2) m c by (simp add: rm_free_eval)
  moreover have "get_max_speed h' 1 DOWNLOAD = 30"
    unfolding h'(3) m c by (simp add: rm_free_eval)
  moreover have "h' 2 = h_capped 2" using h'(4) two by blast
  ultimately have "\<exists>h'. CalculateBandwidth outer_raises rm_free DOWNLOAD h_capped = Inr h' \<and>
      get_max_desired_speed h' 1 DOWNLOAD = 30 \<and> get_max_speed h' 1 DOWNLOAD = 30 \<and>
      h' 2 = h_capped 2"
    using h'(1) by blast
  then show ?thesis using hyp c by blast
qed

section \<open>Phase 2 a: the deficit\<close>

lemma lower_pool_step_floor:
  "rateminimum rm dir \<le> max_desired_speed (snd (snd (lower_pool_step rm dir n t st)) (fst t)) dir"
  by (simp add: lower_pool_step_def Let_def set_max_desired_speed_def)

lemma lower_pool_step_keeps:
  "rateminimum rm dir \<le> max_desired_speed (snd (snd st) d) dir \<Longrightarrow>
   rateminimum rm dir \<le> max_desired_speed (snd (snd (lower_pool_step rm dir n t st)) d) dir"
  by (simp add: lower_pool_step_def Let_def set_max_desired_speed_def)

lemma lower_pool_fold_floor:
  "d \<in> fst ` set ts \<or> rateminimum rm dir \<le> max_desired_speed (snd (snd st) d) dir \<Longrightarrow>
   rateminimum rm dir \<le>
     max_desired_speed (snd (snd (fold (lower_pool_step rm dir n) ts st)) d) dir"
proof (induction ts arbitrary: st)
  case Nil
  then show ?case by simp
next
  case (Cons t ts)
  have "d \<in> fst ` set ts \<or>
      rateminimum rm dir \<le> max_desired_speed (snd (snd (lower_pool_step rm dir n t st)) d) dir"
    using Cons.prems lower_pool_step_floor [of rm dir n t st] lower_pool_step_keeps [of rm dir st d n t]
    by auto
  from Cons.IH [OF this] show ?case by simp
qed

lemma lower_pool_fold_walk:
  "n = i + length ts \<Longrightarrow>
   snd (snd (fold (lower_pool_step rm dir n) ts (r, i, h))) = deficit_walk rm dir r ts h"
proof (induction ts arbitrary: r i h)
  case Nil
  then show ?case by simp
next
  case (Cons t ts)
  have n: "n = Suc i + length ts" using Cons.prems by simp
  have ne: "(Suc i \<noteq> n) = (ts \<noteq> [])" using n by auto
  have len: "real n - (1 + real i) = real (length ts)" using n by simp
  show ?case
  proof (cases "get_max_desired_speed h (fst t) dir + r < rateminimum rm dir")
    case True
    have ar: "a + (b - c) / k = a - (c - b) / k" for a b c k :: real
      by (simp add: diff_divide_distrib)
    have "lower_pool_step rm dir n t (r, i, h) =
        ((if ts \<noteq> [] then r + (get_max_desired_speed h (fst t) dir + r - rateminimum rm dir) /
                                real (length ts) else r),
         Suc i, set_max_desired_speed (fst t) dir (rateminimum rm dir) h)"
      using True by (simp add: lower_pool_step_def Let_def ne len)
    then have st: "lower_pool_step rm dir n t (r, i, h) =
        ((if ts = [] then r else r - (rateminimum rm dir - (get_max_desired_speed h (fst t) dir + r)) /
                                real (length ts)),
         Suc i, set_max_desired_speed (fst t) dir (rateminimum rm dir) h)"
      by (simp only: ar) simp
    show ?thesis
      using True by (simp only: fold_simps o_apply st Cons.IH [OF n] deficit_walk.simps Let_def if_True)
  next
    case False
    have "lower_pool_step rm dir n t (r, i, h) =
        (r, Suc i, set_max_desired_speed (fst t) dir (get_max_desired_speed h (fst t) dir + r) h)"
      using False by (simp add: lower_pool_step_def Let_def)
    then show ?thesis
      using False Cons.IH [OF n] by (simp add: Let_def)
  qed
qed

lemma phase2a_walk:
  "phase2a rm dir available raised unchanged h =
     deficit_walk rm dir (available / real (length (rate_id_of rm dir raised unchanged h)))
       (rate_id_of rm dir raised unchanged h) h"
  by (cases "rate_id_of rm dir raised unchanged h = []")
     (simp_all add: phase2a_def Let_def lower_pool_fold_walk)

lemma phase2a_floor:
  assumes "t \<in> set (rate_id_of rm dir raised unchanged h)"
  shows "rateminimum rm dir \<le>
     get_max_desired_speed (phase2a rm dir available raised unchanged h) (fst t) dir"
proof -
  have ne: "rate_id_of rm dir raised unchanged h \<noteq> []" using assms by auto
  have "fst t \<in> fst ` set (rate_id_of rm dir raised unchanged h)" using assms by simp
  then show ?thesis
    using ne lower_pool_fold_floor [of "fst t" "rate_id_of rm dir raised unchanged h" rm dir]
    by (simp add: phase2a_def Let_def get_max_desired_speed_def)
qed

text \<open>
  Claim C6. The pool of Phase 2 a, \<open>rate_id\<close>, holds exactly the torrents of
  \<open>toberaised + nottobechanged\<close> measured above \<open>rateminimum[dir]\<close> and is in ascending
  order of enforced rate; the loop of the source over it is the walk of the specification
  started with \<open>available / |pool|\<close> (each transfer gets its old desired rate plus the
  current cut per item; one that would fall below the minimum is set to the minimum and
  its shortfall is divided among the transfers not yet visited); and after the phase the
  desired rate of every pool member is at least \<open>rateminimum[dir]\<close>.
\<close>

theorem phase2a_minimum_floor:
  "set (rate_id_of rm dir raised unchanged h) =
     {t \<in> set (raised @ unchanged). get_current_speed (snd t) dir > rateminimum rm dir} \<and>
   length (rate_id_of rm dir raised unchanged h) =
     length (filter (\<lambda>t. get_current_speed (snd t) dir > rateminimum rm dir) (raised @ unchanged)) \<and>
   sorted (map (\<lambda>t. get_max_speed h (fst t) dir) (rate_id_of rm dir raised unchanged h)) \<and>
   phase2a rm dir available raised unchanged h =
     deficit_walk rm dir (available / real (length (rate_id_of rm dir raised unchanged h)))
       (rate_id_of rm dir raised unchanged h) h \<and>
   (\<forall>t \<in> set (rate_id_of rm dir raised unchanged h).
      rateminimum rm dir \<le>
        get_max_desired_speed (phase2a rm dir available raised unchanged h) (fst t) dir)"
proof (intro conjI)
  show "set (rate_id_of rm dir raised unchanged h) =
     {t \<in> set (raised @ unchanged). get_current_speed (snd t) dir > rateminimum rm dir}"
    by (auto simp: rate_id_of_def Let_def)
  show "length (rate_id_of rm dir raised unchanged h) =
     length (filter (\<lambda>t. get_current_speed (snd t) dir > rateminimum rm dir) (raised @ unchanged))"
    by (simp add: rate_id_of_def Let_def)
  show "sorted (map (\<lambda>t. get_max_speed h (fst t) dir) (rate_id_of rm dir raised unchanged h))"
    by (simp add: rate_id_of_def Let_def)
  show "phase2a rm dir available raised unchanged h =
     deficit_walk rm dir (available / real (length (rate_id_of rm dir raised unchanged h)))
       (rate_id_of rm dir raised unchanged h) h"
    by (rule phase2a_walk)
  show "\<forall>t \<in> set (rate_id_of rm dir raised unchanged h).
      rateminimum rm dir \<le>
        get_max_desired_speed (phase2a rm dir available raised unchanged h) (fst t) dir"
    using phase2a_floor by blast
qed

lemma pool_rate_id:
  "rate_id_of (RateManager_init 10 10 10) UPLOAD pool_raised pool_unchanged h_pool =
     [(11, ds_of DLSTATUS_DOWNLOADING 4 0 True), (12, ds_of DLSTATUS_DOWNLOADING 10 0 True),
      (13, ds_of DLSTATUS_SEEDING 9 0 True)]"
  by (simp add: rate_id_of_def Let_def pool_raised_def pool_unchanged_def h_pool_def
        RateManager_init_def clear_downloadstates_def ds_of_def dl_of_def get_max_speed_def)

theorem phase2a_minimum_floor_witness:
  "rate_id_of (RateManager_init 10 10 10) UPLOAD pool_raised pool_unchanged h_pool =
     [(11, ds_of DLSTATUS_DOWNLOADING 4 0 True), (12, ds_of DLSTATUS_DOWNLOADING 10 0 True),
      (13, ds_of DLSTATUS_SEEDING 9 0 True)] \<and>
   rateminimum (RateManager_init 10 10 10) UPLOAD = 3 \<and>
   get_max_desired_speed
     (phase2a (RateManager_init 10 10 10) UPLOAD (- 9) pool_raised pool_unchanged h_pool) 11 UPLOAD = 3 \<and>
   get_max_desired_speed
     (phase2a (RateManager_init 10 10 10) UPLOAD (- 9) pool_raised pool_unchanged h_pool) 12 UPLOAD = 6 \<and>
   get_max_desired_speed
     (phase2a (RateManager_init 10 10 10) UPLOAD (- 9) pool_raised pool_unchanged h_pool) 13 UPLOAD = 6"
proof -
  have m: "rateminimum (RateManager_init 10 10 10) UPLOAD = 3"
    by (simp add: RateManager_init_def)
  have w: "phase2a (RateManager_init 10 10 10) UPLOAD (- 9) pool_raised pool_unchanged h_pool =
     deficit_walk (RateManager_init 10 10 10) UPLOAD
       (- 9 / real (length (rate_id_of (RateManager_init 10 10 10) UPLOAD pool_raised pool_unchanged h_pool)))
       (rate_id_of (RateManager_init 10 10 10) UPLOAD pool_raised pool_unchanged h_pool) h_pool"
    using phase2a_minimum_floor [of "RateManager_init 10 10 10" UPLOAD pool_raised pool_unchanged
        h_pool "- 9"] by blast
  have v: "get_max_desired_speed
     (phase2a (RateManager_init 10 10 10) UPLOAD (- 9) pool_raised pool_unchanged h_pool) 11 UPLOAD = 3"
    "get_max_desired_speed
     (phase2a (RateManager_init 10 10 10) UPLOAD (- 9) pool_raised pool_unchanged h_pool) 12 UPLOAD = 6"
    "get_max_desired_speed
     (phase2a (RateManager_init 10 10 10) UPLOAD (- 9) pool_raised pool_unchanged h_pool) 13 UPLOAD = 6"
    unfolding w pool_rate_id
    by (simp_all add: m Let_def get_max_desired_speed_def set_max_desired_speed_def h_pool_def
          dl_of_def)
  show ?thesis using pool_rate_id m v by blast
qed

section \<open>Phase 2 c: the exchange around the mean\<close>

lemma speed_up_step_eq:
  "speed_up_step rm dir mr up down t (r, h) =
     (r + raise_of rm dir mr up down h t,
      set_max_desired_speed (fst t) dir
        (get_max_desired_speed h (fst t) dir + raise_of rm dir mr up down h t) h)"
  by (simp add: speed_up_step_def raise_of_def Let_def)

lemma raise_of_cong:
  "h1 (fst t) = h2 (fst t) \<Longrightarrow> raise_of rm dir mr up down h1 t = raise_of rm dir mr up down h2 t"
  by (simp add: raise_of_def get_max_desired_speed_def Let_def)

lemma set_max_desired_speed_other:
  "d \<noteq> d' \<Longrightarrow> set_max_desired_speed d' dir v h d = h d"
  by (simp add: set_max_desired_speed_def)

lemma set_max_desired_speed_self:
  "max_desired_speed (set_max_desired_speed d dir v h d) dir = v"
  by (simp add: set_max_desired_speed_def)

lemma speed_up_fold_other:
  "d \<notin> fst ` set ts \<Longrightarrow> snd (fold (speed_up_step rm dir mr up down) ts (r, h)) d = h d"
proof (induction ts arbitrary: r h)
  case Nil
  then show ?case by simp
next
  case (Cons t ts)
  then have ne: "d \<noteq> fst t" and nin: "d \<notin> fst ` set ts" by auto
  show ?case
    by (simp add: speed_up_step_eq Cons.IH [OF nin] set_max_desired_speed_other [OF ne])
qed

lemma speed_up_fold_sum:
  "distinct (map fst ts) \<Longrightarrow>
   fst (fold (speed_up_step rm dir mr up down) ts (r, h)) =
     r + sum_list (map (raise_of rm dir mr up down h) ts)"
proof (induction ts arbitrary: r h)
  case Nil
  then show ?case by simp
next
  case (Cons t ts)
  let ?h1 = "set_max_desired_speed (fst t) dir
        (get_max_desired_speed h (fst t) dir + raise_of rm dir mr up down h t) h"
  have di: "distinct (map fst ts)" and nin: "fst t \<notin> fst ` set ts"
    using Cons.prems by auto
  have same: "map (raise_of rm dir mr up down ?h1) ts = map (raise_of rm dir mr up down h) ts"
  proof (rule map_cong [OF refl])
    fix s assume s: "s \<in> set ts"
    then have "fst s \<noteq> fst t" using nin by (metis imageI)
    then show "raise_of rm dir mr up down ?h1 s = raise_of rm dir mr up down h s"
      by (intro raise_of_cong set_max_desired_speed_other)
  qed
  show ?case
    by (simp add: speed_up_step_eq Cons.IH [OF di] same)
qed

lemma speed_up_fold_member:
  "distinct (map fst ts) \<Longrightarrow> t \<in> set ts \<Longrightarrow>
   max_desired_speed (snd (fold (speed_up_step rm dir mr up down) ts (r, h)) (fst t)) dir =
     max_desired_speed (h (fst t)) dir + raise_of rm dir mr up down h t"
proof (induction ts arbitrary: r h)
  case Nil
  then show ?case by simp
next
  case (Cons s ts)
  let ?h1 = "set_max_desired_speed (fst s) dir
        (get_max_desired_speed h (fst s) dir + raise_of rm dir mr up down h s) h"
  have di: "distinct (map fst ts)" and nin: "fst s \<notin> fst ` set ts"
    using Cons.prems(1) by auto
  show ?case
  proof (cases "t = s")
    case True
    show ?thesis
      by (simp add: True speed_up_step_eq speed_up_fold_other [OF nin]
            set_max_desired_speed_self get_max_desired_speed_def)
  next
    case False
    then have m: "t \<in> set ts" using Cons.prems(2) by simp
    then have ne: "fst t \<noteq> fst s" using nin by (metis imageI)
    have e: "?h1 (fst t) = h (fst t)" using ne by (simp add: set_max_desired_speed_def)
    have "max_desired_speed (snd (fold (speed_up_step rm dir mr up down) ts
              (r + raise_of rm dir mr up down h s, ?h1)) (fst t)) dir =
          max_desired_speed (?h1 (fst t)) dir + raise_of rm dir mr up down ?h1 t"
      by (rule Cons.IH [OF di m])
    also have "\<dots> = max_desired_speed (h (fst t)) dir + raise_of rm dir mr up down h t"
      by (simp only: e raise_of_cong [of ?h1 t h, OF e])
    finally show ?thesis by (simp add: speed_up_step_eq)
  qed
qed

lemma slow_down_step_other:
  "d \<noteq> fst t \<Longrightarrow> slow_down_step dir x t h d = h d"
  by (simp add: slow_down_step_def Let_def set_max_desired_speed_def)

lemma slow_down_step_self:
  "max_desired_speed (slow_down_step dir x t h (fst t)) dir = max_desired_speed (h (fst t)) dir - x"
  by (simp add: slow_down_step_def Let_def set_max_desired_speed_def get_max_desired_speed_def)

lemma slow_down_fold_other:
  "d \<notin> fst ` set ts \<Longrightarrow> fold (slow_down_step dir x) ts h d = h d"
proof (induction ts arbitrary: h)
  case Nil
  then show ?case by simp
next
  case (Cons t ts)
  then have ne: "d \<noteq> fst t" and nin: "d \<notin> fst ` set ts" by auto
  have step: "fold (slow_down_step dir x) (t # ts) h =
      fold (slow_down_step dir x) ts (slow_down_step dir x t h)"
    by simp
  show ?case
    unfolding step Cons.IH [OF nin] by (rule slow_down_step_other [OF ne])
qed

lemma slow_down_fold_member:
  "distinct (map fst ts) \<Longrightarrow> t \<in> set ts \<Longrightarrow>
   max_desired_speed (fold (slow_down_step dir x) ts h (fst t)) dir =
     max_desired_speed (h (fst t)) dir - x"
proof (induction ts arbitrary: h)
  case Nil
  then show ?case by simp
next
  case (Cons s ts)
  have di: "distinct (map fst ts)" and nin: "fst s \<notin> fst ` set ts"
    using Cons.prems(1) by auto
  have step: "fold (slow_down_step dir x) (s # ts) h =
      fold (slow_down_step dir x) ts (slow_down_step dir x s h)"
    by simp
  show ?case
  proof (cases "t = s")
    case True
    show ?thesis
      unfolding step True slow_down_fold_other [OF nin] by (rule slow_down_step_self)
  next
    case False
    then have m: "t \<in> set ts" using Cons.prems(2) by simp
    then have ne: "fst t \<noteq> fst s" using nin by (metis imageI)
    show ?thesis
      unfolding step Cons.IH [OF di m] slow_down_step_other [OF ne] by (rule refl)
  qed
qed

lemma phase2c_above:
  assumes dr: "distinct (map fst rb)" and da: "distinct (map fst ab)"
    and dj: "fst ` set rb \<inter> fst ` set ab = {}" and t: "t \<in> set ab"
  shows "get_max_desired_speed (phase2c rm dir mr rb ab h) (fst t) dir =
     get_max_desired_speed h (fst t) dir - realup_of rm dir mr rb ab h"
proof -
  let ?up = "fold (up_step dir mr h) rb 0"
  let ?down = "fold (down_step dir mr h) ab 0"
  let ?f = "fold (speed_up_step rm dir mr ?up ?down) rb (0, h)"
  have nin: "fst t \<notin> fst ` set rb" using dj t by auto
  have r: "fst ?f / real (length ab) = realup_of rm dir mr rb ab h"
    by (simp add: realup_of_def speed_up_fold_sum [OF dr])
  have p: "phase2c rm dir mr rb ab h =
      fold (slow_down_step dir (realup_of rm dir mr rb ab h)) ab (snd ?f)"
    by (simp add: phase2c_def Let_def case_prod_beta r)
  show ?thesis
    unfolding p get_max_desired_speed_def slow_down_fold_member [OF da t]
    by (simp add: speed_up_fold_other [OF nin])
qed

lemma phase2c_below:
  assumes dr: "distinct (map fst rb)"
    and dj: "fst ` set rb \<inter> fst ` set ab = {}" and t: "t \<in> set rb"
  shows "get_max_desired_speed (phase2c rm dir mr rb ab h) (fst t) dir =
     get_max_desired_speed h (fst t) dir +
       raise_of rm dir mr (fold (up_step dir mr h) rb 0) (fold (down_step dir mr h) ab 0) h t"
proof -
  let ?up = "fold (up_step dir mr h) rb 0"
  let ?down = "fold (down_step dir mr h) ab 0"
  let ?f = "fold (speed_up_step rm dir mr ?up ?down) rb (0, h)"
  have nin: "fst t \<notin> fst ` set ab" using dj t by auto
  have p: "phase2c rm dir mr rb ab h =
      fold (slow_down_step dir (fst ?f / real (length ab))) ab (snd ?f)"
    by (simp add: phase2c_def Let_def case_prod_beta)
  show ?thesis
    unfolding p get_max_desired_speed_def slow_down_fold_other [OF nin]
    by (rule speed_up_fold_member [OF dr t])
qed

lemma partition_ids:
  assumes "distinct (map fst (raised @ unchanged))"
  shows "distinct (map fst (raisedbelowm_of dir mr raised h))"
    and "distinct (map fst (allabovem_of dir mr raised unchanged h))"
    and "fst ` set (raisedbelowm_of dir mr raised h) \<inter>
         fst ` set (allabovem_of dir mr raised unchanged h) = {}"
proof -
  have dr: "distinct (map fst raised)" and du: "distinct (map fst unchanged)"
    and dj: "fst ` set raised \<inter> fst ` set unchanged = {}"
    using assms by auto
  show "distinct (map fst (raisedbelowm_of dir mr raised h))"
    unfolding raisedbelowm_of_def by (rule distinct_map_filter [OF dr])
  show "distinct (map fst (allabovem_of dir mr raised unchanged h))"
    unfolding allabovem_of_def
    using distinct_map_filter [OF dr] distinct_map_filter [OF du] dj by auto
  show "fst ` set (raisedbelowm_of dir mr raised h) \<inter>
         fst ` set (allabovem_of dir mr raised unchanged h) = {}"
    unfolding raisedbelowm_of_def allabovem_of_def by auto
qed

lemma rm_exchange_eval:
  "statusmap rm_exchange DLSTATUS_DOWNLOADING =
     [(21, ds_of DLSTATUS_DOWNLOADING 5 0 True), (22, ds_of DLSTATUS_DOWNLOADING 4 0 True),
      (23, ds_of DLSTATUS_DOWNLOADING 4 0 True)]"
  "statusmap rm_exchange DLSTATUS_SEEDING = []"
  "currenttotal rm_exchange UPLOAD = 13"
  "max_upload_rate rm_exchange = 13"
  "meancalcupth rm_exchange = 3 / 2"
  "calcupth1 rm_exchange = 23 / 10"
  "calcupth2 rm_exchange = 7 / 10"
  "rateminimum rm_exchange UPLOAD = 3"
  by (simp_all add: rm_exchange_def RateManager_init_def add_downloadstate_def
        clear_downloadstates_def Let_def ds_of_def)

lemma exchange_buckets:
  "toberaised (fst (classify prioritizelocal rm_exchange UPLOAD (workingset rm_exchange UPLOAD) h_exchange)) =
     [(21, ds_of DLSTATUS_DOWNLOADING 5 0 True)]"
  "nottobechanged (fst (classify prioritizelocal rm_exchange UPLOAD (workingset rm_exchange UPLOAD) h_exchange)) =
     [(22, ds_of DLSTATUS_DOWNLOADING 4 0 True), (23, ds_of DLSTATUS_DOWNLOADING 4 0 True)]"
  "meanrate (fst (classify prioritizelocal rm_exchange UPLOAD (workingset rm_exchange UPLOAD) h_exchange)) = 15"
  by (simp_all add: classify_def dispatch_def no_buckets_def workingset_def prioritizelocal_def
        rm_exchange_eval Let_def h_exchange_def ds_of_def dl_of_def get_max_speed_def
        get_max_desired_speed_def set_max_desired_speed_def)

lemma exchange_run:
  "get_max_desired_speed (heap_of (CalculateBandwidth outer rm_exchange UPLOAD h_exchange)) 22 UPLOAD
     = 2.75"
  by (simp add: allocator_defs rm_exchange_eval Let_def h_exchange_def ds_of_def dl_of_def
        make_it_so_desired del: make_it_so.simps)

text \<open>
  Claim C10. Let \<open>toberaised\<close> and \<open>nottobechanged\<close> hold distinct Download objects, and
  let both lists around the mean, \<open>raisedbelowm\<close> and \<open>allabovem\<close>, be non-empty. Then
  Phase 2 b and c lower the desired rate of every torrent of \<open>allabovem\<close> by exactly
  \<open>realup\<close>, the sum of the raises applied to \<open>raisedbelowm\<close> divided by the length of
  \<open>allabovem\<close>, and raise every torrent of \<open>raisedbelowm\<close> by its own raise; nothing
  floors the lowered rate. In the run on \<open>rm_exchange\<close> for UPLOAD the mean is 5 and the
  minimum is 3, torrent 22 is in \<open>nottobechanged\<close> with desired rate 5.25, and after the
  call, however \<open>make_it_so\<close> ends, its desired rate is 2.75: below the mean and below the
  minimum.
\<close>

theorem phase2c_no_floor:
  "(distinct (map fst (raised @ unchanged)) \<and>
    raisedbelowm_of dir (mean_of raised unchanged meanrate0) raised h \<noteq> [] \<and>
    allabovem_of dir (mean_of raised unchanged meanrate0) raised unchanged h \<noteq> [] \<and>
    t \<in> set (allabovem_of dir (mean_of raised unchanged meanrate0) raised unchanged h) \<and>
    s \<in> set (raisedbelowm_of dir (mean_of raised unchanged meanrate0) raised h) \<longrightarrow>
    get_max_desired_speed (phase2bc rm dir raised unchanged meanrate0 h) (fst t) dir =
      get_max_desired_speed h (fst t) dir -
        realup_of rm dir (mean_of raised unchanged meanrate0)
          (raisedbelowm_of dir (mean_of raised unchanged meanrate0) raised h)
          (allabovem_of dir (mean_of raised unchanged meanrate0) raised unchanged h) h \<and>
    get_max_desired_speed (phase2bc rm dir raised unchanged meanrate0 h) (fst s) dir =
      get_max_desired_speed h (fst s) dir +
        raise_of rm dir (mean_of raised unchanged meanrate0)
          (fold (up_step dir (mean_of raised unchanged meanrate0) h)
             (raisedbelowm_of dir (mean_of raised unchanged meanrate0) raised h) 0)
          (fold (down_step dir (mean_of raised unchanged meanrate0) h)
             (allabovem_of dir (mean_of raised unchanged meanrate0) raised unchanged h) 0) h s) \<and>
   nottobechanged (fst (classify prioritizelocal rm_exchange UPLOAD
       (workingset rm_exchange UPLOAD) h_exchange)) =
     [(22, ds_of DLSTATUS_DOWNLOADING 4 0 True), (23, ds_of DLSTATUS_DOWNLOADING 4 0 True)] \<and>
   mean_of
     (toberaised (fst (classify prioritizelocal rm_exchange UPLOAD
        (workingset rm_exchange UPLOAD) h_exchange)))
     (nottobechanged (fst (classify prioritizelocal rm_exchange UPLOAD
        (workingset rm_exchange UPLOAD) h_exchange)))
     (meanrate (fst (classify prioritizelocal rm_exchange UPLOAD
        (workingset rm_exchange UPLOAD) h_exchange))) = 5 \<and>
   rateminimum rm_exchange UPLOAD = 3 \<and>
   get_max_desired_speed h_exchange 22 UPLOAD = 5.25 \<and>
   get_max_desired_speed (heap_of (CalculateBandwidth outer rm_exchange UPLOAD h_exchange)) 22 UPLOAD
     = 2.75"
proof (intro conjI impI)
  let ?mr = "mean_of raised unchanged meanrate0"
  let ?rb = "raisedbelowm_of dir ?mr raised h"
  let ?ab = "allabovem_of dir ?mr raised unchanged h"
  assume a: "distinct (map fst (raised @ unchanged)) \<and> ?rb \<noteq> [] \<and> ?ab \<noteq> [] \<and>
    t \<in> set ?ab \<and> s \<in> set ?rb"
  then have di: "distinct (map fst (raised @ unchanged))" and ne: "?rb \<noteq> [] \<and> ?ab \<noteq> []"
    and t: "t \<in> set ?ab" and s: "s \<in> set ?rb"
    by simp_all
  have p: "phase2bc rm dir raised unchanged meanrate0 h = phase2c rm dir ?mr ?rb ?ab h"
    using ne by (simp add: phase2bc_def Let_def)
  show "get_max_desired_speed (phase2bc rm dir raised unchanged meanrate0 h) (fst t) dir =
      get_max_desired_speed h (fst t) dir - realup_of rm dir ?mr ?rb ?ab h"
    unfolding p by (rule phase2c_above [OF partition_ids [OF di] t])
  show "get_max_desired_speed (phase2bc rm dir raised unchanged meanrate0 h) (fst s) dir =
      get_max_desired_speed h (fst s) dir +
        raise_of rm dir ?mr (fold (up_step dir ?mr h) ?rb 0) (fold (down_step dir ?mr h) ?ab 0) h s"
    unfolding p by (rule phase2c_below [OF partition_ids(1) [OF di] partition_ids(3) [OF di] s])
next
  show "nottobechanged (fst (classify prioritizelocal rm_exchange UPLOAD
       (workingset rm_exchange UPLOAD) h_exchange)) =
     [(22, ds_of DLSTATUS_DOWNLOADING 4 0 True), (23, ds_of DLSTATUS_DOWNLOADING 4 0 True)]"
    by (rule exchange_buckets)
  show "mean_of
     (toberaised (fst (classify prioritizelocal rm_exchange UPLOAD
        (workingset rm_exchange UPLOAD) h_exchange)))
     (nottobechanged (fst (classify prioritizelocal rm_exchange UPLOAD
        (workingset rm_exchange UPLOAD) h_exchange)))
     (meanrate (fst (classify prioritizelocal rm_exchange UPLOAD
        (workingset rm_exchange UPLOAD) h_exchange))) = 5"
    unfolding exchange_buckets by (simp add: mean_of_def)
  show "rateminimum rm_exchange UPLOAD = 3" by (rule rm_exchange_eval)
  show "get_max_desired_speed h_exchange 22 UPLOAD = 5.25"
    by (simp add: get_max_desired_speed_def h_exchange_def dl_of_def)
  show "get_max_desired_speed (heap_of (CalculateBandwidth outer rm_exchange UPLOAD h_exchange))
      22 UPLOAD = 2.75"
    by (rule exchange_run)
qed

lemma exchange_partition:
  "mean_of [(21, ds_of DLSTATUS_DOWNLOADING 5 0 True)]
     [(22, ds_of DLSTATUS_DOWNLOADING 4 0 True), (23, ds_of DLSTATUS_DOWNLOADING 4 0 True)] 15 = 5"
  "raisedbelowm_of UPLOAD 5 [(21, ds_of DLSTATUS_DOWNLOADING 5 0 True)] h_exchange =
     [(21, ds_of DLSTATUS_DOWNLOADING 5 0 True)]"
  "allabovem_of UPLOAD 5 [(21, ds_of DLSTATUS_DOWNLOADING 5 0 True)]
     [(22, ds_of DLSTATUS_DOWNLOADING 4 0 True), (23, ds_of DLSTATUS_DOWNLOADING 4 0 True)] h_exchange =
     [(22, ds_of DLSTATUS_DOWNLOADING 4 0 True), (23, ds_of DLSTATUS_DOWNLOADING 4 0 True)]"
  by (simp_all add: mean_of_def raisedbelowm_of_def allabovem_of_def get_max_desired_speed_def
        h_exchange_def dl_of_def)

theorem phase2c_no_floor_witness:
  "distinct (map fst ([(21::dlid, ds_of DLSTATUS_DOWNLOADING 5 0 True)] @
     [(22, ds_of DLSTATUS_DOWNLOADING 4 0 True), (23, ds_of DLSTATUS_DOWNLOADING 4 0 True)])) \<and>
   realup_of rm_exchange UPLOAD 5 [(21, ds_of DLSTATUS_DOWNLOADING 5 0 True)]
     [(22, ds_of DLSTATUS_DOWNLOADING 4 0 True), (23, ds_of DLSTATUS_DOWNLOADING 4 0 True)]
     h_exchange = 2.5 \<and>
   get_max_desired_speed
     (phase2bc rm_exchange UPLOAD [(21, ds_of DLSTATUS_DOWNLOADING 5 0 True)]
        [(22, ds_of DLSTATUS_DOWNLOADING 4 0 True), (23, ds_of DLSTATUS_DOWNLOADING 4 0 True)]
        15 h_exchange) 23 UPLOAD = 7.5 \<and>
   get_max_desired_speed
     (phase2bc rm_exchange UPLOAD [(21, ds_of DLSTATUS_DOWNLOADING 5 0 True)]
        [(22, ds_of DLSTATUS_DOWNLOADING 4 0 True), (23, ds_of DLSTATUS_DOWNLOADING 4 0 True)]
        15 h_exchange) 21 UPLOAD = 5"
proof -
  let ?A = "(21::nat, ds_of DLSTATUS_DOWNLOADING 5 0 True)"
  let ?B = "(22::nat, ds_of DLSTATUS_DOWNLOADING 4 0 True)"
  let ?C = "(23::nat, ds_of DLSTATUS_DOWNLOADING 4 0 True)"
  have di: "distinct (map fst ([?A] @ [?B, ?C]))" by simp
  have ru: "realup_of rm_exchange UPLOAD 5 [?A] [?B, ?C] h_exchange = 2.5"
    by (simp add: realup_of_def raise_of_def up_step_def down_step_def Let_def
          get_max_desired_speed_def h_exchange_def dl_of_def ds_of_def rm_exchange_eval)
  have ra: "raise_of rm_exchange UPLOAD 5 (fold (up_step UPLOAD 5 h_exchange) [?A] 0)
      (fold (down_step UPLOAD 5 h_exchange) [?B, ?C] 0) h_exchange ?A = 5"
    by (simp add: raise_of_def up_step_def down_step_def Let_def
          get_max_desired_speed_def h_exchange_def dl_of_def ds_of_def rm_exchange_eval)
  have v: "get_max_desired_speed h_exchange 23 UPLOAD = 10"
    "get_max_desired_speed h_exchange 21 UPLOAD = 0"
    by (simp_all add: get_max_desired_speed_def h_exchange_def dl_of_def)
  from phase2c_no_floor [of "[?A]" "[?B, ?C]" UPLOAD 15 h_exchange ?C ?A rm_exchange]
  have "get_max_desired_speed (phase2bc rm_exchange UPLOAD [?A] [?B, ?C] 15 h_exchange) 23 UPLOAD = 7.5 \<and>
     get_max_desired_speed (phase2bc rm_exchange UPLOAD [?A] [?B, ?C] 15 h_exchange) 21 UPLOAD = 5"
    unfolding exchange_partition ru ra by (simp add: v)
  then show ?thesis using di ru by blast
qed

section \<open>Phase 1: the surplus\<close>













section \<open>The local \<open>prioritizelocal\<close>\<close>

lemma dispatch_False_local:
  "localprioactive (fst (dispatch False rm dir t bh)) = localprioactive (fst bh)"
  by (simp add: dispatch_def Let_def)

lemma classify_False_local:
  "localprioactive (fst (fold (dispatch False rm dir) ws bh)) = localprioactive (fst bh)"
  by (induction ws arbitrary: bh) (simp_all add: dispatch_False_local)

lemma set_max_desired_speed_same:
  assumes "max_desired_speed (h d) dir = v"
  shows "set_max_desired_speed d dir v h = h"
  unfolding assms [symmetric] by (simp add: set_max_desired_speed_def)

lemma dispatch_True_heap: "snd (dispatch True rm dir t bh) = snd bh"
proof (cases "get_max_desired_speed (snd bh) (fst t) dir = 0")
  case True
  then have "set_max_desired_speed (fst t) dir 0 (snd bh) = snd bh"
    by (intro set_max_desired_speed_same) (simp add: get_max_desired_speed_def)
  then show ?thesis using True by (simp add: dispatch_def Let_def)
next
  case False
  then show ?thesis by (simp add: dispatch_def Let_def)
qed

lemma dispatch_True_local:
  "localprioactive (fst (dispatch True rm dir t bh)) =
     localprioactive (fst bh) @
       (if get_max_desired_speed (snd bh) (fst t) dir \<noteq> 0 then [t] else [])"
  by (simp add: dispatch_def Let_def)

lemma classify_True_heap: "snd (fold (dispatch True rm dir) ws bh) = snd bh"
  by (induction ws arbitrary: bh) (simp_all add: dispatch_True_heap)

lemma classify_True_local:
  "localprioactive (fst (fold (dispatch True rm dir) ws bh)) =
     localprioactive (fst bh) @
       filter (\<lambda>t. get_max_desired_speed (snd bh) (fst t) dir \<noteq> 0) ws"
proof (induction ws arbitrary: bh)
  case Nil
  then show ?case by simp
next
  case (Cons t ts)
  have step: "fold (dispatch True rm dir) (t # ts) bh =
      fold (dispatch True rm dir) ts (dispatch True rm dir t bh)"
    by simp
  show ?case
    unfolding step Cons.IH dispatch_True_heap dispatch_True_local by simp
qed

lemma grant_local_step_other:
  "d \<noteq> fst t \<Longrightarrow> snd (grant_local_step rm dir t gh) d = snd gh d"
  by (simp add: grant_local_step_def Let_def set_max_speed_def set_max_desired_speed_def)

lemma grant_local_step_self:
  "max_desired_speed (snd (grant_local_step rm dir t gh) (fst t)) dir =
     min (get_current_speed (snd t) dir + meancalcupth rm) (max_desired_speed (snd gh (fst t)) dir)"
  "max_speed (snd (grant_local_step rm dir t gh) (fst t)) dir =
     max_desired_speed (snd gh (fst t)) dir"
  by (simp_all add: grant_local_step_def Let_def set_max_speed_def set_max_desired_speed_def
        get_max_desired_speed_def min_def)

lemma grant_local_fold_other:
  "d \<notin> fst ` set ts \<Longrightarrow> snd (fold (grant_local_step rm dir) ts gh) d = snd gh d"
proof (induction ts arbitrary: gh)
  case Nil
  then show ?case by simp
next
  case (Cons t ts)
  then have ne: "d \<noteq> fst t" and nin: "d \<notin> fst ` set ts" by auto
  have step: "fold (grant_local_step rm dir) (t # ts) gh =
      fold (grant_local_step rm dir) ts (grant_local_step rm dir t gh)"
    by simp
  show ?case unfolding step Cons.IH [OF nin] by (rule grant_local_step_other [OF ne])
qed

lemma grant_local_fold_member:
  "distinct (map fst ts) \<Longrightarrow> t \<in> set ts \<Longrightarrow>
   max_desired_speed (snd (fold (grant_local_step rm dir) ts gh) (fst t)) dir =
     min (get_current_speed (snd t) dir + meancalcupth rm) (max_desired_speed (snd gh (fst t)) dir) \<and>
   max_speed (snd (fold (grant_local_step rm dir) ts gh) (fst t)) dir =
     max_desired_speed (snd gh (fst t)) dir"
proof (induction ts arbitrary: gh)
  case Nil
  then show ?case by simp
next
  case (Cons s ts)
  have di: "distinct (map fst ts)" and nin: "fst s \<notin> fst ` set ts"
    using Cons.prems(1) by auto
  have step: "fold (grant_local_step rm dir) (s # ts) gh =
      fold (grant_local_step rm dir) ts (grant_local_step rm dir s gh)"
    by simp
  show ?case
  proof (cases "t = s")
    case True
    show ?thesis
      unfolding step True grant_local_fold_other [OF nin] grant_local_step_self
      by simp
  next
    case False
    then have m: "t \<in> set ts" using Cons.prems(2) by simp
    then have ne: "fst t \<noteq> fst s" using nin by (metis imageI)
    show ?thesis
      unfolding step using Cons.IH [OF di m, of "grant_local_step rm dir s gh"]
      by (simp only: grant_local_step_other [OF ne])
  qed
qed

text \<open>
  The local \<open>prioritizelocal\<close> of \<open>CalculateBandwidth\<close> is set to
  \<open>False\<close>: in every run the list \<open>localprioactive\<close> is empty and \<open>toberegulated\<close> is the
  whole working set. Were the local \<open>True\<close>, the dispatch loop would put exactly the
  torrents of the working set whose desired rate is not 0 into \<open>localprioactive\<close> and
  leave every Download object as it is; and the loop of lines 319 to 335 over a list of
  distinct Download objects sets, for each \<open>(d, ds)\<close> of the list, the desired rate to
  the smaller of the measured rate plus \<open>meancalcupth\<close> and the local cap (the desired
  rate it reads), and the enforced rate to that local cap.
\<close>

theorem prioritizelocal_is_off:
  "prioritizelocal = False \<and>
   localprioactive (fst (classify prioritizelocal rm dir ws h)) = [] \<and>
   filter (\<lambda>t. t \<notin> set (localprioactive (fst (classify prioritizelocal rm dir ws h)))) ws = ws \<and>
   localprioactive (fst (classify True rm dir ws h)) =
     filter (\<lambda>t. get_max_desired_speed h (fst t) dir \<noteq> 0) ws \<and>
   snd (classify True rm dir ws h) = h \<and>
   (distinct (map fst lp) \<and> (d, ds) \<in> set lp \<longrightarrow>
      get_max_desired_speed (snd (fold (grant_local_step rm dir) lp (g, h))) d dir =
        min (get_current_speed ds dir + meancalcupth rm) (get_max_desired_speed h d dir) \<and>
      get_max_speed (snd (fold (grant_local_step rm dir) lp (g, h))) d dir =
        get_max_desired_speed h d dir)"
proof (intro conjI impI)
  show "prioritizelocal = False" by (rule prioritizelocal_def)
  show e: "localprioactive (fst (classify prioritizelocal rm dir ws h)) = []"
    by (simp add: prioritizelocal_def classify_def classify_False_local no_buckets_def)
  show "filter (\<lambda>t. t \<notin> set (localprioactive (fst (classify prioritizelocal rm dir ws h)))) ws = ws"
    unfolding e by simp
  show "localprioactive (fst (classify True rm dir ws h)) =
     filter (\<lambda>t. get_max_desired_speed h (fst t) dir \<noteq> 0) ws"
    by (simp add: classify_def classify_True_local no_buckets_def)
  show "snd (classify True rm dir ws h) = h"
    by (simp add: classify_def classify_True_heap)
next
  assume a: "distinct (map fst lp) \<and> (d, ds) \<in> set lp"
  then have di: "distinct (map fst lp)" and m: "(d, ds) \<in> set lp" by simp_all
  from grant_local_fold_member [OF di m, of rm dir "(g, h)"]
  show "get_max_desired_speed (snd (fold (grant_local_step rm dir) lp (g, h))) d dir =
        min (get_current_speed ds dir + meancalcupth rm) (get_max_desired_speed h d dir)"
    and "get_max_speed (snd (fold (grant_local_step rm dir) lp (g, h))) d dir =
        get_max_desired_speed h d dir"
    by (simp_all add: get_max_desired_speed_def get_max_speed_def)
qed

lemma rm_local_eval:
  "statusmap rm_local DLSTATUS_DOWNLOADING =
     [(31, ds_of DLSTATUS_DOWNLOADING 0.01 0 True), (32, ds_of DLSTATUS_DOWNLOADING 6 0 True)]"
  "statusmap rm_local DLSTATUS_SEEDING = []"
  "currenttotal rm_local UPLOAD = 6.01"
  "max_upload_rate rm_local = 5"
  "meancalcupth rm_local = 3 / 2"
  "calcupth1 rm_local = 23 / 10"
  "calcupth2 rm_local = 7 / 10"
  "rateminimum rm_local UPLOAD = 3"
  by (simp_all add: rm_local_def RateManager_init_def add_downloadstate_def
        clear_downloadstates_def Let_def ds_of_def)

theorem prioritizelocal_is_off_witness:
  "distinct (map fst [(31::dlid, ds_of DLSTATUS_DOWNLOADING 0.01 0 True)]) \<and>
   get_max_desired_speed
     (snd (fold (grant_local_step rm_local UPLOAD) [(31, ds_of DLSTATUS_DOWNLOADING 0.01 0 True)]
             (0, h_local))) 31 UPLOAD = 1.51 \<and>
   get_max_speed
     (snd (fold (grant_local_step rm_local UPLOAD) [(31, ds_of DLSTATUS_DOWNLOADING 0.01 0 True)]
             (0, h_local))) 31 UPLOAD = 50"
proof -
  have v: "get_max_desired_speed h_local 31 UPLOAD = 50"
    "get_current_speed (ds_of DLSTATUS_DOWNLOADING 0.01 0 True) UPLOAD = 0.01"
    by (simp_all add: get_max_desired_speed_def h_local_def dl_of_def ds_of_def)
  have hyp: "distinct (map fst [(31::dlid, ds_of DLSTATUS_DOWNLOADING 0.01 0 True)]) \<and>
    (31, ds_of DLSTATUS_DOWNLOADING 0.01 0 True) \<in> set [(31::dlid, ds_of DLSTATUS_DOWNLOADING 0.01 0 True)]"
    by simp
  from prioritizelocal_is_off [of rm_local UPLOAD "[]" h_local
      "[(31, ds_of DLSTATUS_DOWNLOADING 0.01 0 True)]" 31 "ds_of DLSTATUS_DOWNLOADING 0.01 0 True" 0] hyp
  have "get_max_desired_speed
     (snd (fold (grant_local_step rm_local UPLOAD) [(31, ds_of DLSTATUS_DOWNLOADING 0.01 0 True)]
             (0, h_local))) 31 UPLOAD =
       min (get_current_speed (ds_of DLSTATUS_DOWNLOADING 0.01 0 True) UPLOAD + meancalcupth rm_local)
         (get_max_desired_speed h_local 31 UPLOAD) \<and>
     get_max_speed
     (snd (fold (grant_local_step rm_local UPLOAD) [(31, ds_of DLSTATUS_DOWNLOADING 0.01 0 True)]
             (0, h_local))) 31 UPLOAD = get_max_desired_speed h_local 31 UPLOAD"
    by blast
  then show ?thesis unfolding v rm_local_eval using hyp by simp
qed




section \<open>The free wheeling scenario\<close>

lemma free_run:
  "get_max_desired_speed (heap_of (CalculateBandwidth outer_raises rm_free DOWNLOAD h_free)) 1 DOWNLOAD
     = 41.5"
  "get_max_speed (heap_of (CalculateBandwidth outer_raises rm_free DOWNLOAD h_free)) 1 DOWNLOAD = 100"
  "get_max_desired_speed h_free 1 DOWNLOAD = 0"
  "get_max_desired_speed (heap_of (CalculateBandwidth outer_raises rm_free DOWNLOAD h_capped)) 1 DOWNLOAD
     = 30"
  "get_max_desired_speed h_capped 1 DOWNLOAD = 30"
proof -
  have mem: "(1, ds_of DLSTATUS_DOWNLOADING 0 40 True) \<in> set (workingset rm_free DOWNLOAD)"
    by (simp add: rm_free_eval)
  have ne: "workingset rm_free DOWNLOAD \<noteq> []" by (simp add: rm_free_eval)
  have cap: "MaxRate rm_free DOWNLOAD \<noteq> 0" by (simp add: rm_free_eval)
  have idle: "1 - currenttotal rm_free DOWNLOAD / MaxRate rm_free DOWNLOAD > 0.20"
    by (simp add: rm_free_eval)
  have di: "distinct (map fst (workingset rm_free DOWNLOAD))"
    by (rule distinct_workingset [OF registry_inv_rm_free])
  have m: "get_current_speed (ds_of DLSTATUS_DOWNLOADING 0 40 True) DOWNLOAD = 40"
    by (simp add: ds_of_def)
  show z: "get_max_desired_speed h_free 1 DOWNLOAD = 0"
    by (simp add: get_max_desired_speed_def h_free_def dl_of_def)
  show c: "get_max_desired_speed h_capped 1 DOWNLOAD = 30"
    by (simp add: get_max_desired_speed_def h_capped_def dl_of_def)
  show "get_max_desired_speed (heap_of (CalculateBandwidth outer_raises rm_free DOWNLOAD h_free))
      1 DOWNLOAD = 41.5"
    unfolding free_wheeling_taken [OF ne cap idle] heap_of_def sum.case
      free_wheeling_desired [OF di mem] m z
    by (simp add: rm_free_eval)
  show "get_max_speed (heap_of (CalculateBandwidth outer_raises rm_free DOWNLOAD h_free))
      1 DOWNLOAD = 100"
    unfolding free_wheeling_taken [OF ne cap idle] heap_of_def sum.case
      free_wheeling_limit [OF di mem] m z
    by (simp add: rm_free_eval)
  show "get_max_desired_speed (heap_of (CalculateBandwidth outer_raises rm_free DOWNLOAD h_capped))
      1 DOWNLOAD = 30"
    unfolding free_wheeling_taken [OF ne cap idle] heap_of_def sum.case
      free_wheeling_desired [OF di mem] m c
    by (simp add: rm_free_eval)
qed

text \<open>
  The scenario of claim C4 as the claim words it: cap 100, total 50, one torrent measured
  at 40 KB/s. Without a local cap the desired rate is 0 before the call and 41.5 after
  it, a rise of 41.5 and not of 1.5; with a desired rate of 30 before the call (which the
  source reads as a local cap) it stays 30, a rise of 0.
\<close>

theorem free_wheeling_rise_is_not_meancalcupth:
  "MaxRate rm_free DOWNLOAD = 100 \<and> currenttotal rm_free DOWNLOAD = 50 \<and>
   workingset rm_free DOWNLOAD = [(1, ds_of DLSTATUS_DOWNLOADING 0 40 True)] \<and>
   get_current_speed (ds_of DLSTATUS_DOWNLOADING 0 40 True) DOWNLOAD = 40 \<and>
   get_max_desired_speed h_free 1 DOWNLOAD = 0 \<and>
   get_max_desired_speed (heap_of (CalculateBandwidth outer_raises rm_free DOWNLOAD h_free)) 1 DOWNLOAD
     - get_max_desired_speed h_free 1 DOWNLOAD = 41.5 \<and>
   get_max_desired_speed (heap_of (CalculateBandwidth outer_raises rm_free DOWNLOAD h_free)) 1 DOWNLOAD
     - get_max_desired_speed h_free 1 DOWNLOAD \<noteq> 1.5 \<and>
   get_max_desired_speed h_capped 1 DOWNLOAD = 30 \<and>
   get_max_desired_speed (heap_of (CalculateBandwidth outer_raises rm_free DOWNLOAD h_capped)) 1 DOWNLOAD
     - get_max_desired_speed h_capped 1 DOWNLOAD = 0"
  using free_run rm_free_eval by (simp add: ds_of_def)

end
